theory Spec2Isabelle
  imports Complex_Main
begin

section \<open>Strings and character classes\<close>

text \<open>
  A JavaScript string is modelled as a \<^typ>\<open>string\<close>: each \<^typ>\<open>char\<close> stands for one
  UTF-16 code unit in the range 0..255. The character classes below are the ones the
  regular expression of \<open>parseBountyCommand\<close> uses, restricted to that range:
  \<open>\d\<close> is \<open>[0-9]\<close>, \<open>\w\<close> is \<open>[A-Za-z0-9_]\<close>, and \<open>\s\<close> is tab, line feed,
  vertical tab, form feed, carriage return, space and the no-break space U+00A0.
\<close>

definition is_digit :: "char \<Rightarrow> bool" where
  "is_digit c = (c \<in> set ''0123456789'')"

definition is_lower_letter :: "char \<Rightarrow> bool" where
  "is_lower_letter c = (c \<in> set ''abcdefghijklmnopqrstuvwxyz'')"

definition is_upper_letter :: "char \<Rightarrow> bool" where
  "is_upper_letter c = (c \<in> set ''ABCDEFGHIJKLMNOPQRSTUVWXYZ'')"

definition is_word :: "char \<Rightarrow> bool" where
  "is_word c = (is_lower_letter c \<or> is_upper_letter c \<or> is_digit c \<or> c = CHR ''_'')"

definition is_space :: "char \<Rightarrow> bool" where
  "is_space c =
     (c \<in> set [CHR 0x09, CHR 0x0A, CHR 0x0B, CHR 0x0C, CHR 0x0D, CHR 0x20, CHR 0xA0])"

text \<open>
  \<open>String.prototype.toLowerCase\<close> on code units below 256: the ASCII capitals and the
  Latin-1 capitals U+00C0..U+00DE (without the multiplication sign U+00D7) move up by 32;
  every other code unit is unchanged.
\<close>

definition lower_char :: "char \<Rightarrow> char" where
  "lower_char c =
     (let n = (of_char c :: nat)
      in if (65 \<le> n \<and> n \<le> 90) \<or> (192 \<le> n \<and> n \<le> 222 \<and> n \<noteq> 215)
         then char_of (n + 32) else c)"

definition toLowerCase :: "string \<Rightarrow> string" where
  "toLowerCase s = map lower_char s"

text \<open>JavaScript truthiness of a string: every string but the empty one.\<close>

definition truthy :: "string \<Rightarrow> bool" where
  "truthy s = (s \<noteq> [])"


section \<open>Data model (\<open>types.ts\<close>)\<close>

text \<open>
  Field names follow the interfaces of \<open>types.ts\<close>. The \<open>id\<close> of a comment is
  \<open>comment_id\<close> here, and the fields of an issue and of a repository carry a prefix,
  because a record field is a constant of its own in HOL.
\<close>

record GitHubComment =
  comment_id :: nat
  body :: string
  user_login :: string
  issue_url :: string
  created_at :: string

text \<open>
  A JavaScript \<open>number\<close> is a binary64 floating-point value: \<open>NaN\<close>, one of the two
  infinities, the negative zero, or a finite value. \<open>Finite q\<close> stands for the finite
  value \<open>q\<close>, a rational number, and \<open>Finite 0\<close> for the positive zero.
\<close>

datatype number = NaN | Finite rat | PositiveInfinity | NegativeInfinity | NegativeZero

record BountyCommand =
  amount :: number
  tokenAddress :: string
  issueUrl :: string


record GitHubIssue =
  issue_title :: string
  issue_body :: string
  issue_number :: nat
  repository_url :: string

record GitHubRepository =
  repo_full_name :: string
  language :: string

record token =
  mintAddress :: string
  token_amount :: number

record BountyRequestPayload =
  token :: token
  title :: string
  content :: string
  requirements :: string
  tags :: "string list"
  payer :: string
  isHidden :: bool

record BountyResponse =
  taskId :: string
  serializedTransaction :: string


section \<open>Errors, collaborators and the state of a run\<close>

text \<open>
  A thrown value is an \<open>Error\<close> object. The code reads three things from it: its
  \<open>message\<close> (\<open>error_message\<close>), its \<open>signature\<close> property (\<open>error_signature\<close>:
  the errors of the network client carry one, a plain \<open>Error\<close> has none) and whether it
  is an instance of \<open>TransactionExpiredBlockheightExceededError\<close>.
\<close>

record js_error =
  error_message :: string
  error_signature :: "string option"
  blockheight_exceeded :: bool

definition new_Error :: "string \<Rightarrow> js_error" where
  "new_Error msg = \<lparr>error_message = msg, error_signature = None, blockheight_exceeded = False\<rparr>"

datatype TransactionConfirmationStatus = Processed | Confirmed | Finalized

record SignatureStatus =
  confirmationStatus :: "TransactionConfirmationStatus option"
  err :: "string option"

record RpcResponseAndContext =
  context_slot :: nat
  rpc_value :: "SignatureStatus option"

text \<open>The answer of the marketplace: the parts of a \<open>fetch\<close> response the code reads.\<close>

record Response =
  ok :: bool
  statusText :: string
  response_text :: "js_error + string"
  response_json :: "js_error + BountyResponse"

text \<open>
  The three bodies \<open>processBountyCommand\<close> posts, one constructor for each template
  literal, with the values the template interpolates. The first is the report of the
  normal path (\<open>Bounty created successfully!\<close>), the second the one of the recovery path
  (\<open>Bounty created successfully (with confirmation issues)!\<close>), the third the failure
  report (\<open>Issue with bounty creation: \<close> followed by the error message).
\<close>

datatype comment_body =
    BountyCreated (r_taskId: string) (r_amount: number) (r_tokenType: string)
      (r_statusNote: string) (r_bountyUrl: string) (r_explorerUrl: string)
  | BountyCreatedWithIssues (r_amount: number) (r_tokenType: string)
      (r_bountyUrl: string) (r_explorerUrl: string)
  | IssueWithBountyCreation (r_errorMessage: string)

record IssueComment =
  c_owner :: "string option"
  c_repo :: "string option"
  c_issue_number :: nat
  c_body :: comment_body

text \<open>
  The collaborators. Each network call is a function of the number of calls made to
  that service so far and of the arguments of the call, so that two calls with the same
  arguments may answer differently; \<open>Inl\<close> is a rejected promise. Signing
  (\<open>getWalletKeypair\<close>, \<open>VersionedTransaction.deserialize\<close>, \<open>sign\<close>) is local
  and depends on the transaction blob only. \<open>confirmTransaction\<close> stands for the race of
  the confirmation request against the 60 second timer: a timeout is one of its errors.
\<close>

datatype service = GetIssue | GetRepository | Fetch | SendTransaction | GetLatestBlockhash
  | ConfirmTransaction | GetSignatureStatus | CreateComment | ListComments

record env =
  AUTHORIZED_USERS :: "string list"
  REPOSITORIES :: "string list"
  WALLET_PUBLIC_KEY :: string
  getIssue :: "nat \<Rightarrow> string \<Rightarrow> js_error + GitHubIssue"
  getRepository :: "nat \<Rightarrow> string \<Rightarrow> js_error + GitHubRepository"
  fetch :: "nat \<Rightarrow> BountyRequestPayload \<Rightarrow> js_error + Response"
  signTransaction :: "string \<Rightarrow> js_error + string"
  sendTransaction :: "nat \<Rightarrow> string \<Rightarrow> js_error + string"
  getLatestBlockhash :: "nat \<Rightarrow> js_error + string \<times> nat"
  confirmTransaction :: "nat \<Rightarrow> string \<Rightarrow> js_error + unit"
  getSignatureStatus :: "nat \<Rightarrow> string \<Rightarrow> js_error + RpcResponseAndContext option"
  createComment :: "nat \<Rightarrow> IssueComment \<Rightarrow> js_error + unit"
  listCommentsForRepo :: "nat \<Rightarrow> string option \<Rightarrow> string option \<Rightarrow> js_error + GitHubComment list"

text \<open>
  The state of a run: how often each service has been called, the milliseconds spent
  in \<open>setTimeout\<close> delays, the comments created on the code host, the set
  \<open>processedComments\<close>, and the calls of \<open>processBountyCommand\<close> made by the poll loop,
  each with the id of the comment it came from.
\<close>

record world =
  calls :: "service \<Rightarrow> nat"
  waited :: nat
  posted :: "IssueComment list"
  processedComments :: "nat set"
  invoked :: "(nat \<times> BountyCommand) list"

type_synonym 'a io = "world \<Rightarrow> (js_error + 'a) \<times> world"

definition io_return :: "'a \<Rightarrow> 'a io" where
  "io_return x w = (Inr x, w)"

definition io_throw :: "js_error \<Rightarrow> 'a io" where
  "io_throw e w = (Inl e, w)"

definition io_of :: "js_error + 'a \<Rightarrow> 'a io" where
  "io_of r w = (r, w)"

definition io_bind :: "'a io \<Rightarrow> ('a \<Rightarrow> 'b io) \<Rightarrow> 'b io" where
  "io_bind m f w = (case m w of (Inl e, w') \<Rightarrow> (Inl e, w') | (Inr x, w') \<Rightarrow> f x w')"

definition io_catch :: "'a io \<Rightarrow> (js_error \<Rightarrow> 'a io) \<Rightarrow> 'a io" where
  "io_catch m h w = (case m w of (Inl e, w') \<Rightarrow> h e w' | (Inr x, w') \<Rightarrow> (Inr x, w'))"

text \<open>
  A call of service \<open>s\<close>: the answer is the one for the current call count of \<open>s\<close>, and
  the count goes up by one.
\<close>

definition tick :: "service \<Rightarrow> world \<Rightarrow> world" where
  "tick s w = w\<lparr>calls := (calls w)(s := Suc (calls w s))\<rparr>"

definition await :: "service \<Rightarrow> (nat \<Rightarrow> js_error + 'a) \<Rightarrow> 'a io" where
  "await s reply w = (reply (calls w s), tick s w)"

definition delay :: "nat \<Rightarrow> unit io" where
  "delay ms w = (Inr (), w\<lparr>waited := waited w + ms\<rparr>)"


section \<open>Authorization (\<open>config.ts\<close>)\<close>

text \<open>
  \<open>AUTHORIZED_USERS\<close> is read from the process environment once, at start-up; in the
  model it is a field of \<^typ>\<open>env\<close>, a list of user names.
\<close>

definition isAuthorized :: "env \<Rightarrow> string \<Rightarrow> bool" where
  "isAuthorized env username =
     (if length (AUTHORIZED_USERS env) = 0 then False
      else list_ex (\<lambda>user. toLowerCase user = toLowerCase username) (AUTHORIZED_USERS env))"


section \<open>The command parser (\<open>github.ts\<close>)\<close>

text \<open>
  The Number value of a real number \<open>x\<close> that is not negative, as ECMAScript defines it:
  the binary64 value nearest to \<open>x\<close>, the one with the even significand when two
  values are equally near, and \<open>+Infinity\<close> when that value would be \<open>2^1024\<close>.
  \<open>binade x\<close> is the exponent \<open>e\<close> with \<open>2^e \<le> x < 2^(e+1)\<close>, and -1022 for every
  \<open>x\<close> below \<open>2^-1022\<close>, the subnormal range. The binary64 values between \<open>2^e\<close>
  and \<open>2^(e+1)\<close> are the multiples of \<open>2^(e-52)\<close>.
\<close>

function binade_up :: "rat \<Rightarrow> int \<Rightarrow> int" where
  "binade_up x e = (if 2 \<le> x then binade_up (x / 2) (e + 1) else e)"
  by pat_completeness auto
termination
proof (relation "measure (\<lambda>(x, e). nat \<lfloor>x\<rfloor>)")
  show "wf (measure (\<lambda>(x, e). nat \<lfloor>x\<rfloor>))" by simp
next
  fix x :: rat and e :: int
  assume "2 \<le> x"
  then have "\<lfloor>x / 2\<rfloor> < \<lfloor>x\<rfloor>" "0 < \<lfloor>x\<rfloor>" by linarith+
  then show "((x / 2, e + 1), (x, e)) \<in> measure (\<lambda>(x, e). nat \<lfloor>x\<rfloor>)" by simp
qed

function binade_down :: "rat \<Rightarrow> int \<Rightarrow> int" where
  "binade_down x e = (if x < 1 \<and> - 1022 < e then binade_down (2 * x) (e - 1) else e)"
  by pat_completeness auto
termination
  by (relation "measure (\<lambda>(x, e). nat (e + 1022))") auto

definition binade :: "rat \<Rightarrow> int" where
  "binade x = (if 1 \<le> x then binade_up x 0 else binade_down x 0)"

definition round_half_even :: "rat \<Rightarrow> int" where
  "round_half_even x =
     (let f = \<lfloor>x\<rfloor>; r = x - of_int f
      in if r < 1 / 2 then f
         else if 1 / 2 < r then f + 1
         else if even f then f else f + 1)"

definition number_value :: "rat \<Rightarrow> number" where
  "number_value x =
     (let ulp = 2 powi (binade x - 52);
          v = of_int (round_half_even (x / ulp)) * ulp
      in if 2 ^ 1024 \<le> v then PositiveInfinity else Finite v)"

text \<open>The unary minus of JavaScript.\<close>

definition negate :: "number \<Rightarrow> number" where
  "negate n =
     (case n of
        NaN \<Rightarrow> NaN
      | Finite v \<Rightarrow> if v = 0 then NegativeZero else Finite (- v)
      | PositiveInfinity \<Rightarrow> NegativeInfinity
      | NegativeInfinity \<Rightarrow> PositiveInfinity
      | NegativeZero \<Rightarrow> Finite 0)"

text \<open>
  \<open>parseFloat\<close>, as ECMAScript defines it. Leading white space is dropped. Then the
  longest prefix that is a \<open>StrDecimalLiteral\<close> is read: an optional sign, followed by
  \<open>Infinity\<close> or by decimal digits with an optional fraction and an optional exponent,
  where the digits before or the digits after the dot may be missing, but not both.
  The exponent counts only when digits follow its sign. When there is no such prefix
  the result is \<open>NaN\<close>. The value of the literal, \<open>(a + b * 10^-n) * 10^e\<close>, is
  rounded to its Number value. For a literal with more than 20 significant digits the
  standard leaves the choice between the two neighbouring values to the engine; the
  model takes the nearest one, which is what V8 computes.
\<close>

definition digit_val :: "char \<Rightarrow> nat" where
  "digit_val c = of_char c - 48"

definition digits_val :: "string \<Rightarrow> nat" where
  "digits_val ds = foldl (\<lambda>a c. 10 * a + digit_val c) 0 ds"

definition ExponentPart :: "string \<Rightarrow> int" where
  "ExponentPart s =
     (case s of
        [] \<Rightarrow> 0
      | c # r \<Rightarrow>
          if c \<noteq> CHR ''e'' \<and> c \<noteq> CHR ''E'' then 0
          else (case r of
                  [] \<Rightarrow> 0
                | d # r' \<Rightarrow>
                    if d = CHR ''+'' then int (digits_val (takeWhile is_digit r'))
                    else if d = CHR ''-'' then - int (digits_val (takeWhile is_digit r'))
                    else int (digits_val (takeWhile is_digit r))))"

definition StrUnsignedDecimalLiteral :: "string \<Rightarrow> number" where
  "StrUnsignedDecimalLiteral s =
     (if take 8 s = ''Infinity'' then PositiveInfinity
      else let ip = takeWhile is_digit s;
               r = dropWhile is_digit s;
               dot = (r \<noteq> [] \<and> hd r = CHR ''.'');
               fp = (if dot then takeWhile is_digit (tl r) else []);
               r' = (if dot then dropWhile is_digit (tl r) else r)
      in if ip = [] \<and> fp = [] then NaN
         else number_value (of_nat (digits_val (ip @ fp))
                * 10 powi (ExponentPart r' - int (length fp))))"

definition parseFloat :: "string \<Rightarrow> number" where
  "parseFloat string =
     (case dropWhile is_space string of
        [] \<Rightarrow> NaN
      | c # r \<Rightarrow>
          if c = CHR ''+'' then StrUnsignedDecimalLiteral r
          else if c = CHR ''-'' then negate (StrUnsignedDecimalLiteral r)
          else StrUnsignedDecimalLiteral (c # r))"

text \<open>
  The regular expression \<open>/\/bounty\s+(\d+(?:\.\d+)?)\s+([\w\d]{32,44})/i\<close>, tried at the
  start of \<open>s\<close>. Every quantifier is greedy and is followed by a piece that no character
  of its own class can start, so the match at a position is unique: each run is taken
  whole, and the last group takes at most 44 characters. The result is the pair of
  capture groups.
\<close>

definition match_at :: "string \<Rightarrow> (string \<times> string) option" where
  "match_at s =
     (if map lower_char (take 7 s) \<noteq> ''/bounty'' then None
      else let r1 = drop 7 s;
               r2 = dropWhile is_space r1
      in if takeWhile is_space r1 = [] then None
      else let ds = takeWhile is_digit r2;
               r3 = dropWhile is_digit r2
      in if ds = [] then None
      else let fs = (case r3 of
                       [] \<Rightarrow> []
                     | c # r \<Rightarrow> if c = CHR ''.'' then takeWhile is_digit r else []);
               num = (if fs = [] then ds else ds @ CHR ''.'' # fs);
               r4 = (if fs = [] then r3 else dropWhile is_digit (tl r3));
               r5 = dropWhile is_space r4;
               addr = takeWhile is_word r5
      in if takeWhile is_space r4 = [] then None
      else if length addr < 32 then None
      else Some (num, take 44 addr))"

text \<open>\<open>String.prototype.match\<close> without the \<open>g\<close> flag: the leftmost position that matches.\<close>

fun regex_match :: "string \<Rightarrow> (string \<times> string) option" where
  "regex_match [] = match_at []"
| "regex_match (c # s) =
     (case match_at (c # s) of
        Some m \<Rightarrow> Some m
      | None \<Rightarrow> regex_match s)"

definition parseBountyCommand :: "env \<Rightarrow> GitHubComment \<Rightarrow> BountyCommand option" where
  "parseBountyCommand env comment =
     (case regex_match (body comment) of
        None \<Rightarrow> None
      | Some (g1, g2) \<Rightarrow>
          if isAuthorized env (user_login comment)
          then Some \<lparr>amount = parseFloat g1, tokenAddress = g2, issueUrl = issue_url comment\<rparr>
          else None)"

text \<open>\<open>String.prototype.split\<close> with a one-character separator, and array indexing.\<close>

fun split_on :: "char \<Rightarrow> string \<Rightarrow> string list" where
  "split_on c [] = [[]]"
| "split_on c (x # xs) =
     (if x = c then [] # split_on c xs
      else (case split_on c xs of [] \<Rightarrow> [[x]] | y # ys \<Rightarrow> (x # y) # ys))"

definition at_index :: "'a list \<Rightarrow> nat \<Rightarrow> 'a option" where
  "at_index xs i = (if i < length xs then Some (xs ! i) else None)"

fun indexOf :: "'a list \<Rightarrow> 'a \<Rightarrow> nat option" where
  "indexOf [] y = None"
| "indexOf (x # xs) y = (if x = y then Some 0 else map_option Suc (indexOf xs y))"

definition parseRepoFullName :: "string \<Rightarrow> string option \<times> string option" where
  "parseRepoFullName fullName =
     (let parts = split_on (CHR ''/'') fullName in (at_index parts 0, at_index parts 1))"

text \<open>\<open>indexOf\<close> answers -1 when \<open>repos\<close> is no part of the URL, and the owner is then part 0.\<close>

definition getRepoInfoFromUrl :: "string \<Rightarrow> string option \<times> string option" where
  "getRepoInfoFromUrl repoUrl =
     (let urlParts = split_on (CHR ''/'') repoUrl;
          ownerIndex = (case indexOf urlParts ''repos'' of None \<Rightarrow> 0 | Some i \<Rightarrow> i + 1)
      in (at_index urlParts ownerIndex, at_index urlParts (ownerIndex + 1)))"

definition getRecentComments :: "env \<Rightarrow> string option \<Rightarrow> string option \<Rightarrow> GitHubComment list io" where
  "getRecentComments env owner repo =
     io_catch (await ListComments (\<lambda>n. listCommentsForRepo env n owner repo))
       (\<lambda>error. io_return [])"

definition getIssueFromUrl :: "env \<Rightarrow> string \<Rightarrow> GitHubIssue io" where
  "getIssueFromUrl env url = await GetIssue (\<lambda>n. getIssue env n url)"

definition getRepositoryFromUrl :: "env \<Rightarrow> string \<Rightarrow> GitHubRepository io" where
  "getRepositoryFromUrl env repoUrl = await GetRepository (\<lambda>n. getRepository env n repoUrl)"

text \<open>A comment is on the code host once \<open>createComment\<close> has resolved.\<close>

definition commentOnIssue ::
  "env \<Rightarrow> string option \<Rightarrow> string option \<Rightarrow> nat \<Rightarrow> comment_body \<Rightarrow> unit io" where
  "commentOnIssue env owner repo issueNumber body' =
     (let c = \<lparr>c_owner = owner, c_repo = repo, c_issue_number = issueNumber, c_body = body'\<rparr>
      in io_bind (await CreateComment (\<lambda>n. createComment env n c))
           (\<lambda>_ w. (Inr (), w\<lparr>posted := posted w @ [c]\<rparr>)))"


section \<open>The transaction pipeline (\<open>bounty.ts\<close>)\<close>

text \<open>\<open>a || b\<close> on strings.\<close>

definition or_else :: "string \<Rightarrow> string \<Rightarrow> string" where
  "or_else a b = (if truthy a then a else b)"

definition createBountyTransaction :: "env \<Rightarrow> BountyCommand \<Rightarrow> BountyResponse io" where
  "createBountyTransaction env command =
     io_catch
       (io_bind (getIssueFromUrl env (issueUrl command)) (\<lambda>issueDetails.
        io_bind (getRepositoryFromUrl env (repository_url issueDetails)) (\<lambda>repository.
        let payload = \<lparr>token = \<lparr>mintAddress = tokenAddress command,
                                 token_amount = amount command\<rparr>,
                       title = issue_title issueDetails,
                       content = or_else (issue_body issueDetails) ''No description provided'',
                       requirements = ''PR to be merged'',
                       tags = [or_else (language repository) ''unknown''],
                       payer = WALLET_PUBLIC_KEY env,
                       isHidden = True\<rparr>
        in io_bind (await Fetch (\<lambda>n. fetch env n payload)) (\<lambda>response.
           if \<not> ok response
           then io_bind (io_of (response_text response)) (\<lambda>errorText.
                  io_throw (new_Error (''Failed to create bounty: '' @ statusText response
                                        @ ''. Details: '' @ errorText)))
           else io_of (response_json response)))))
       (\<lambda>error. io_throw error)"

definition checkTransactionStatus :: "env \<Rightarrow> string \<Rightarrow> bool io" where
  "checkTransactionStatus env signature =
     io_catch
       (io_bind (await GetSignatureStatus (\<lambda>n. getSignatureStatus env n signature)) (\<lambda>status.
          case status of
            None \<Rightarrow> io_return False
          | Some st \<Rightarrow>
              (case rpc_value st of
                 None \<Rightarrow> io_return False
               | Some v \<Rightarrow> io_return (confirmationStatus v = Some Confirmed
                                      \<or> confirmationStatus v = Some Finalized))))
       (\<lambda>error. io_return False)"

text \<open>
  The loop \<open>for (let i = 0; i < 3; i++)\<close> of \<open>signAndSendTransaction\<close>: wait five
  seconds, ask for the status, leave the loop at the first confirmation.
\<close>

function additional_checks :: "env \<Rightarrow> string \<Rightarrow> nat \<Rightarrow> unit io" where
  "additional_checks env signature i w =
     (if i < 3
      then (case io_bind (delay 5000) (\<lambda>_. checkTransactionStatus env signature) w of
              (Inl e, w') \<Rightarrow> (Inl e, w')
            | (Inr retryConfirmed, w') \<Rightarrow>
                if retryConfirmed then (Inr (), w')
                else additional_checks env signature (Suc i) w')
      else (Inr (), w))"
  by pat_completeness auto
termination
  by (relation "measure (\<lambda>(env, signature, i, w). 3 - i)") auto

definition signAndSendTransaction :: "env \<Rightarrow> string \<Rightarrow> string io" where
  "signAndSendTransaction env serializedTransaction' =
     io_catch
       (io_bind (io_of (signTransaction env serializedTransaction')) (\<lambda>transaction.
        io_bind (await SendTransaction (\<lambda>n. sendTransaction env n transaction)) (\<lambda>signature.
        io_bind
          (io_catch
             (io_bind (await GetLatestBlockhash (getLatestBlockhash env)) (\<lambda>latestBlockhash.
              await ConfirmTransaction (\<lambda>n. confirmTransaction env n signature)))
             (\<lambda>confirmError.
                io_bind (delay 5000) (\<lambda>_.
                io_bind (checkTransactionStatus env signature) (\<lambda>isConfirmed.
                  if isConfirmed then io_return ()
                  else if blockheight_exceeded confirmError
                  then additional_checks env signature 0
                  else io_throw (new_Error (''Transaction may have failed: ''
                                             @ error_message confirmError))))))
          (\<lambda>_. io_return signature))))
       (\<lambda>error.
          case error_signature error of
            None \<Rightarrow> io_throw error
          | Some s \<Rightarrow> if truthy s then io_return s else io_throw error)"

definition tokenType_of :: "string \<Rightarrow> string" where
  "tokenType_of addr =
     (if addr = ''So11111111111111111111111111111111111111112'' then ''SOL''
      else if addr = ''EPjFWdd5AufqSSqeM2qN1xzybapC8G4wEGGkZwyTDt1v'' then ''USDC''
      else ''tokens'')"

definition explorerUrl_of :: "string \<Rightarrow> string" where
  "explorerUrl_of signature = ''https://explorer.solana.com/tx/'' @ signature"

definition bountyUrl_of :: "string \<Rightarrow> string" where
  "bountyUrl_of task = ''https://app.gib.work/tasks/'' @ task"

definition statusNote_of :: "bool \<Rightarrow> string" where
  "statusNote_of isConfirmed =
     (if isConfirmed then ''Transaction confirmed.''
      else ''Transaction submitted but confirmation is pending. ''
           @ ''You can check its status using the transaction link below.'')"

text \<open>
  The rest of the \<open>try\<close> block of \<open>processBountyCommand\<close>, from the second issue lookup
  to the success comment, once \<open>transactionSignature\<close> has been assigned.
\<close>

definition report_success :: "env \<Rightarrow> BountyCommand \<Rightarrow> BountyResponse \<Rightarrow> string \<Rightarrow> unit io" where
  "report_success env command bountyResponse transactionSignature =
     io_bind (getIssueFromUrl env (issueUrl command)) (\<lambda>issueDetails.
     let (owner, repo) = getRepoInfoFromUrl (repository_url issueDetails);
         tokenType = tokenType_of (tokenAddress command);
         explorerUrl = explorerUrl_of transactionSignature;
         bountyUrl = bountyUrl_of (taskId bountyResponse)
     in io_bind (checkTransactionStatus env transactionSignature) (\<lambda>isConfirmed.
        commentOnIssue env owner repo (issue_number issueDetails)
          (BountyCreated (taskId bountyResponse) (amount command) tokenType
             (statusNote_of isConfirmed) bountyUrl explorerUrl)))"

text \<open>
  The first part of the \<open>catch\<close> block: with a signature and a marketplace answer at
  hand, ask for the status once more and, when it is confirmed, post the success comment
  of the recovery path. The result is \<open>True\<close> when the block has executed its \<open>return\<close>.
\<close>

definition recover_success ::
  "env \<Rightarrow> BountyCommand \<Rightarrow> string option \<Rightarrow> BountyResponse option \<Rightarrow> bool io" where
  "recover_success env command transactionSignature bountyResponse =
     (case (transactionSignature, bountyResponse) of
        (Some sg, Some resp) \<Rightarrow>
          if truthy sg
          then io_catch
                 (io_bind (checkTransactionStatus env sg) (\<lambda>isSuccessful.
                    if isSuccessful
                    then io_bind (getIssueFromUrl env (issueUrl command)) (\<lambda>issueDetails.
                         let (owner, repo) = getRepoInfoFromUrl (repository_url issueDetails)
                         in io_bind
                              (commentOnIssue env owner repo (issue_number issueDetails)
                                 (BountyCreatedWithIssues (amount command)
                                    (tokenType_of (tokenAddress command))
                                    (bountyUrl_of (taskId resp)) (explorerUrl_of sg)))
                              (\<lambda>_. io_return True))
                    else io_return False))
                 (\<lambda>statusCheckError. io_return False)
          else io_return False
      | _ \<Rightarrow> io_return False)"

definition nl :: string where
  "nl = [CHR 0x0A]"

text \<open>The text of the failure report, as the second part of the \<open>catch\<close> block builds it.\<close>

definition failure_message :: "js_error \<Rightarrow> string option \<Rightarrow> BountyResponse option \<Rightarrow> string" where
  "failure_message error transactionSignature bountyResponse =
     (case transactionSignature of
        None \<Rightarrow> error_message error
      | Some sg \<Rightarrow>
          if \<not> truthy sg then error_message error
          else (case bountyResponse of
                  None \<Rightarrow>
                    error_message error @ nl @ nl
                    @ ''Transaction was sent but confirmation failed. ''
                    @ ''You can check its status here: ['' @ sg @ ''](''
                    @ explorerUrl_of sg @ '')''
                | Some resp \<Rightarrow>
                    if truthy (taskId resp)
                    then error_message error @ nl @ nl
                         @ ''Transaction was sent but confirmation failed. ''
                         @ ''The bounty may still have been created:'' @ nl
                         @ ''- Bounty: [View on Gib.work]('' @ bountyUrl_of (taskId resp)
                         @ '') (Private bounty, only accessible via this link)'' @ nl
                         @ ''- Transaction: [View on Solana Explorer]('' @ explorerUrl_of sg
                         @ '')''
                    else error_message error @ nl @ nl
                         @ ''Transaction was sent but confirmation failed. ''
                         @ ''You can check its status here: ['' @ sg @ ''](''
                         @ explorerUrl_of sg @ '')''))"

definition report_failure ::
  "env \<Rightarrow> BountyCommand \<Rightarrow> string option \<Rightarrow> BountyResponse option \<Rightarrow> js_error \<Rightarrow> unit io" where
  "report_failure env command transactionSignature bountyResponse error =
     io_catch
       (io_bind (getIssueFromUrl env (issueUrl command)) (\<lambda>issueDetails.
        let (owner, repo) = getRepoInfoFromUrl (repository_url issueDetails);
            errorMessage = failure_message error transactionSignature bountyResponse
        in commentOnIssue env owner repo (issue_number issueDetails)
             (IssueWithBountyCreation errorMessage)))
       (\<lambda>commentError. io_return ())"

text \<open>
  The \<open>catch\<close> block of \<open>processBountyCommand\<close>, with the values the variables
  \<open>transactionSignature\<close> and \<open>bountyResponse\<close> have when the error is caught.
\<close>

definition catch_block ::
  "env \<Rightarrow> BountyCommand \<Rightarrow> string option \<Rightarrow> BountyResponse option \<Rightarrow> js_error \<Rightarrow> unit io" where
  "catch_block env command transactionSignature bountyResponse error =
     io_bind (recover_success env command transactionSignature bountyResponse) (\<lambda>returned.
       if returned then io_return ()
       else report_failure env command transactionSignature bountyResponse error)"

text \<open>
  \<open>processBountyCommand\<close>. Both variables start as \<open>null\<close>; \<open>bountyResponse\<close> is
  assigned when \<open>createBountyTransaction\<close> returns and \<open>transactionSignature\<close> when
  \<open>signAndSendTransaction\<close> returns, so an error thrown by either call is caught with
  the variable still \<open>null\<close>.
\<close>

definition processBountyCommand :: "env \<Rightarrow> BountyCommand \<Rightarrow> unit io" where
  "processBountyCommand env command w =
     (case createBountyTransaction env command w of
        (Inl error, w1) \<Rightarrow> catch_block env command None None error w1
      | (Inr bountyResponse, w1) \<Rightarrow>
          (case signAndSendTransaction env (serializedTransaction bountyResponse) w1 of
             (Inl error, w2) \<Rightarrow> catch_block env command None (Some bountyResponse) error w2
           | (Inr transactionSignature, w2) \<Rightarrow>
               (case report_success env command bountyResponse transactionSignature w2 of
                  (Inl error, w3) \<Rightarrow>
                    catch_block env command (Some transactionSignature) (Some bountyResponse)
                      error w3
                | (Inr u, w3) \<Rightarrow> (Inr u, w3))))"


section \<open>The poll loop (\<open>index.ts\<close>)\<close>

text \<open>
  The inner loop of \<open>checkForBountyCommands\<close> over the comments of one repository. The
  field \<open>invoked\<close> records each call of \<open>processBountyCommand\<close>.
\<close>

fun process_comments :: "env \<Rightarrow> GitHubComment list \<Rightarrow> unit io" where
  "process_comments env [] w = (Inr (), w)"
| "process_comments env (comment # comments) w =
     (if comment_id comment \<in> processedComments w then process_comments env comments w
      else let w1 = w\<lparr>processedComments := insert (comment_id comment) (processedComments w)\<rparr>
      in case parseBountyCommand env comment of
           None \<Rightarrow> process_comments env comments w1
         | Some bountyCommand \<Rightarrow>
             (case processBountyCommand env bountyCommand
                     (w1\<lparr>invoked := invoked w1 @ [(comment_id comment, bountyCommand)]\<rparr>) of
                (Inl e, w2) \<Rightarrow> (Inl e, w2)
              | (Inr u, w2) \<Rightarrow> process_comments env comments w2))"

text \<open>The outer loop, with its \<open>try\<close>/\<open>catch\<close> around the work on one repository.\<close>

fun check_repositories :: "env \<Rightarrow> string list \<Rightarrow> unit io" where
  "check_repositories env [] w = (Inr (), w)"
| "check_repositories env (repoFullName # rest) w =
     (case io_catch
             (let (owner, repo) = parseRepoFullName repoFullName
              in io_bind (getRecentComments env owner repo) (process_comments env))
             (\<lambda>error. io_return ()) w of
        (Inl e, w') \<Rightarrow> (Inl e, w')
      | (Inr u, w') \<Rightarrow> check_repositories env rest w')"

definition checkForBountyCommands :: "env \<Rightarrow> unit io" where
  "checkForBountyCommands env = check_repositories env (REPOSITORIES env)"

text \<open>
  \<open>cleanupProcessedComments\<close> computes a date, reads the size of the set and writes two
  log lines; it removes nothing.
\<close>

definition cleanupProcessedComments :: "world \<Rightarrow> world" where
  "cleanupProcessedComments w = w"

text \<open>
  The two scheduled jobs, run one after the other in some order: a poll tick every 30
  seconds and the clean-up once a day.
\<close>

datatype job = Tick | Cleanup

fun run_jobs :: "env \<Rightarrow> job list \<Rightarrow> world \<Rightarrow> world" where
  "run_jobs env [] w = w"
| "run_jobs env (Tick # js) w = run_jobs env js (snd (checkForBountyCommands env w))"
| "run_jobs env (Cleanup # js) w = run_jobs env js (cleanupProcessedComments w)"


section \<open>Notions used to state the properties\<close>

text \<open>
  The confirmation status a \<open>getSignatureStatus\<close> answer reports, if it reports one: an
  error, a \<open>null\<close> answer and a \<open>null\<close> value report none.
\<close>

definition reported_status ::
  "js_error + RpcResponseAndContext option \<Rightarrow> TransactionConfirmationStatus option" where
  "reported_status r =
     (case r of
        Inl e \<Rightarrow> None
      | Inr None \<Rightarrow> None
      | Inr (Some st) \<Rightarrow> (case rpc_value st of None \<Rightarrow> None | Some v \<Rightarrow> confirmationStatus v))"

definition status_confirmed :: "js_error + RpcResponseAndContext option \<Rightarrow> bool" where
  "status_confirmed r = (reported_status r = Some Confirmed \<or> reported_status r = Some Finalized)"

text \<open>An action leaves the component \<open>f\<close> of the state as it found it.\<close>

definition keeps :: "(world \<Rightarrow> 'b) \<Rightarrow> 'a io \<Rightarrow> bool" where
  "keeps f m = (\<forall>w. f (snd (m w)) = f w)"

text \<open>An error whose \<open>signature\<close> property is truthy, as the outer handler tests it.\<close>

definition carries_signature :: "js_error \<Rightarrow> bool" where
  "carries_signature e = (case error_signature e of None \<Rightarrow> False | Some s \<Rightarrow> truthy s)"

text \<open>The code host answers every issue lookup and accepts every comment.\<close>

definition github_answers :: "env \<Rightarrow> bool" where
  "github_answers env =
     ((\<forall>n url. \<exists>i. getIssue env n url = Inr i) \<and> (\<forall>n c. createComment env n c = Inr ()))"

text \<open>
  What a stretch of polling may do to the state: the registry only grows, and the new
  calls of the pipeline are for distinct comment ids, none of which was in the registry
  before and all of which are in it afterwards; at most one comment is posted for each.
\<close>

definition poll_step :: "world \<Rightarrow> world \<Rightarrow> bool" where
  "poll_step w w' =
     (processedComments w \<subseteq> processedComments w' \<and>
      (\<exists>new. invoked w' = invoked w @ new \<and> distinct (map fst new)
         \<and> fst ` set new \<subseteq> processedComments w' - processedComments w
         \<and> (\<exists>ps. posted w' = posted w @ ps \<and> length ps \<le> length new)))"

text \<open>
  What the regular expression of \<open>parseBountyCommand\<close> accepts, stated without the
  matcher: somewhere in the text stand \<open>/bounty\<close> in any letter case, one or more
  white-space characters, digits with an optional fraction, one or more white-space
  characters, and 32 to 44 word characters.
\<close>

definition command_pattern :: "string \<Rightarrow> bool" where
  "command_pattern s =
     (\<exists>pre kw ws1 ds fraction ws2 addr post.
        s = pre @ kw @ ws1 @ ds @ fraction @ ws2 @ addr @ post
        \<and> map lower_char kw = ''/bounty''
        \<and> ws1 \<noteq> [] \<and> list_all is_space ws1
        \<and> ds \<noteq> [] \<and> list_all is_digit ds
        \<and> (fraction = [] \<or> (\<exists>fs. fraction = CHR ''.'' # fs \<and> fs \<noteq> [] \<and> list_all is_digit fs))
        \<and> ws2 \<noteq> [] \<and> list_all is_space ws2
        \<and> 32 \<le> length addr \<and> length addr \<le> 44 \<and> list_all is_word addr)"

text \<open>
  The command grammar in the words of the specification: the literal \<open>/bounty\<close>, one or
  more spaces, a numeric amount (integer or decimal), one or more spaces, and a token
  address that is an alphanumeric string of 32 to 44 characters. The command may stand
  anywhere in the comment, since any other text is ignored.
\<close>

definition is_alphanumeric :: "char \<Rightarrow> bool" where
  "is_alphanumeric c = (is_lower_letter c \<or> is_upper_letter c \<or> is_digit c)"

definition spec_command_grammar :: "string \<Rightarrow> bool" where
  "spec_command_grammar s =
     (\<exists>pre sp1 ds fraction sp2 addr post.
        s = pre @ ''/bounty'' @ sp1 @ ds @ fraction @ sp2 @ addr @ post
        \<and> sp1 \<noteq> [] \<and> list_all (\<lambda>c. c = CHR '' '') sp1
        \<and> ds \<noteq> [] \<and> list_all is_digit ds
        \<and> (fraction = [] \<or> (\<exists>fs. fraction = CHR ''.'' # fs \<and> fs \<noteq> [] \<and> list_all is_digit fs))
        \<and> sp2 \<noteq> [] \<and> list_all (\<lambda>c. c = CHR '' '') sp2
        \<and> 32 \<le> length addr \<and> length addr \<le> 44 \<and> list_all is_alphanumeric addr)"

text \<open>
  The value of the decimal numeral with the integer digits \<open>ds\<close> and the fraction
  digits \<open>fs\<close>, and the numbers that are finite and greater than zero.
\<close>

definition decimal_value :: "string \<Rightarrow> string \<Rightarrow> rat" where
  "decimal_value ds fs = of_nat (digits_val (ds @ fs)) / 10 ^ length fs"

definition positive_finite :: "number \<Rightarrow> bool" where
  "positive_finite n = (case n of Finite v \<Rightarrow> 0 < v | _ \<Rightarrow> False)"

text \<open>The failure report on an issue, with the text that follows its heading.\<close>

definition failure_report :: "GitHubIssue \<Rightarrow> string \<Rightarrow> IssueComment" where
  "failure_report issue msg =
     \<lparr>c_owner = fst (getRepoInfoFromUrl (repository_url issue)),
      c_repo = snd (getRepoInfoFromUrl (repository_url issue)),
      c_issue_number = issue_number issue,
      c_body = IssueWithBountyCreation msg\<rparr>"


section \<open>Scenarios\<close>

text \<open>
  Concrete collaborators for the runs the properties are tried on. In the nominal
  environment every call succeeds and the network reports the transaction confirmed.
\<close>

definition example_issue :: GitHubIssue where
  "example_issue = \<lparr>issue_title = ''Fix the parser'', issue_body = [], issue_number = 7,
     repository_url = ''https://api.github.com/repos/acme/widget''\<rparr>"

definition example_response :: BountyResponse where
  "example_response = \<lparr>taskId = ''T1'', serializedTransaction = ''AAAA''\<rparr>"

definition example_command :: BountyCommand where
  "example_command = \<lparr>amount = Finite 5,
     tokenAddress = ''So11111111111111111111111111111111111111112'',
     issueUrl = ''https://api.github.com/repos/acme/widget/issues/7''\<rparr>"

definition status_answer :: "TransactionConfirmationStatus \<Rightarrow> RpcResponseAndContext option" where
  "status_answer c =
     Some \<lparr>context_slot = 1, rpc_value = Some \<lparr>confirmationStatus = Some c, err = None\<rparr>\<rparr>"

definition nominal_env :: env where
  "nominal_env =
     \<lparr>AUTHORIZED_USERS = [''Alice''], REPOSITORIES = [''acme/widget''],
      WALLET_PUBLIC_KEY = ''PAYER'',
      getIssue = (\<lambda>n url. Inr example_issue),
      getRepository = (\<lambda>n url. Inr \<lparr>repo_full_name = ''acme/widget'', language = []\<rparr>),
      fetch = (\<lambda>n p. Inr \<lparr>ok = True, statusText = ''OK'', response_text = Inr [],
                           response_json = Inr example_response\<rparr>),
      signTransaction = (\<lambda>tx. Inr (''signed:'' @ tx)),
      sendTransaction = (\<lambda>n tx. Inr ''SIG''),
      getLatestBlockhash = (\<lambda>n. Inr (''HASH'', 100)),
      confirmTransaction = (\<lambda>n sg. Inr ()),
      getSignatureStatus = (\<lambda>n sg. Inr (status_answer Confirmed)),
      createComment = (\<lambda>n c. Inr ()),
      listCommentsForRepo = (\<lambda>n ow rp. Inr [])\<rparr>"

definition initial_world :: world where
  "initial_world =
     \<lparr>calls = (\<lambda>s. 0), waited = 0, posted = [], processedComments = {}, invoked = []\<rparr>"

definition timeout_error :: js_error where
  "timeout_error = new_Error ''Confirmation timeout''"

definition blockheight_error :: js_error where
  "blockheight_error =
     \<lparr>error_message = ''Signature SIG has expired: block height exceeded.'',
      error_signature = Some ''SIG'', blockheight_exceeded = True\<rparr>"

definition posted_on_example_issue :: "comment_body \<Rightarrow> IssueComment" where
  "posted_on_example_issue b =
     \<lparr>c_owner = Some ''acme'', c_repo = Some ''widget'', c_issue_number = 7, c_body = b\<rparr>"

definition env_sign_fails :: env where
  "env_sign_fails =
     nominal_env\<lparr>signTransaction := (\<lambda>tx. Inl (new_Error ''Invalid transaction blob''))\<rparr>"

definition env_sign_fails_post_rejected :: env where
  "env_sign_fails_post_rejected =
     env_sign_fails\<lparr>createComment := (\<lambda>n c. Inl (new_Error ''Bad Gateway''))\<rparr>"

definition env_signature_lost :: env where
  "env_signature_lost =
     nominal_env\<lparr>confirmTransaction := (\<lambda>n sg. Inl timeout_error),
                 getSignatureStatus := (\<lambda>n sg. Inr None)\<rparr>"

definition env_timeout_confirmed :: env where
  "env_timeout_confirmed = nominal_env\<lparr>confirmTransaction := (\<lambda>n sg. Inl timeout_error)\<rparr>"

definition env_post_rejected_twice :: env where
  "env_post_rejected_twice =
     env_timeout_confirmed\<lparr>createComment :=
        (\<lambda>n c. if n < 2 then Inl (new_Error ''Bad Gateway'') else Inr ())\<rparr>"

definition env_blockheight :: env where
  "env_blockheight =
     nominal_env\<lparr>confirmTransaction := (\<lambda>n sg. Inl blockheight_error),
                 getSignatureStatus := (\<lambda>n sg. Inr None)\<rparr>"

definition env_blockheight_lookup_fails :: env where
  "env_blockheight_lookup_fails =
     env_blockheight\<lparr>getIssue :=
        (\<lambda>n url. if n = 1 then Inl (new_Error ''Bad Gateway'') else Inr example_issue)\<rparr>"

definition env_blockheight_late :: env where
  "env_blockheight_late =
     env_blockheight\<lparr>getSignatureStatus :=
        (\<lambda>n sg. if n < 4 then Inr None else Inr (status_answer Confirmed))\<rparr>"

definition example_comment :: GitHubComment where
  "example_comment =
     \<lparr>comment_id = 101, body = ''/bounty 5 So11111111111111111111111111111111111111112'',
      user_login = ''alice'',
      issue_url = ''https://api.github.com/repos/acme/widget/issues/7'',
      created_at = ''2024-01-01T00:00:00Z''\<rparr>"


definition env_duplicate :: env where
  "env_duplicate =
     nominal_env\<lparr>listCommentsForRepo := (\<lambda>n ow rp. Inr [example_comment, example_comment])\<rparr>"

definition env_duplicate_github_down :: env where
  "env_duplicate_github_down =
     env_duplicate\<lparr>getIssue := (\<lambda>n url. Inl (new_Error ''Service Unavailable''))\<rparr>"

definition unauthorized_comment :: GitHubComment where
  "unauthorized_comment = example_comment\<lparr>comment_id := 102, user_login := ''mallory''\<rparr>"

definition env_unauthorized :: env where
  "env_unauthorized =
     nominal_env\<lparr>listCommentsForRepo := (\<lambda>n ow rp. Inr [unauthorized_comment])\<rparr>"

definition upper_case_comment :: GitHubComment where
  "upper_case_comment =
     example_comment\<lparr>body := ''/BOUNTY 5 So11111111111111111111111111111111111111112''\<rparr>"

definition tab_comment :: GitHubComment where
  "tab_comment =
     example_comment\<lparr>body := ''/bounty'' @ [CHR 0x09] @ ''5'' @ [CHR 0x09]
                               @ ''So11111111111111111111111111111111111111112''\<rparr>"

definition underscore_comment :: GitHubComment where
  "underscore_comment =
     example_comment\<lparr>body := ''/bounty 5 ________________________________''\<rparr>"

definition zero_comment :: GitHubComment where
  "zero_comment =
     example_comment\<lparr>body := ''/bounty 0 So11111111111111111111111111111111111111112''\<rparr>"

text \<open>An amount of 309 digits: a 2 followed by 308 zeros.\<close>

definition huge_comment :: GitHubComment where
  "huge_comment =
     example_comment\<lparr>body := ''/bounty '' @ CHR ''2'' # replicate 308 (CHR ''0'')
                               @ '' So11111111111111111111111111111111111111112''\<rparr>"

definition plain_comment :: GitHubComment where
  "plain_comment = example_comment\<lparr>body := ''Looks good to me''\<rparr>"


section \<open>Basic facts about the pipeline\<close>

lemma checkTransactionStatus_eq:
  "checkTransactionStatus env sg w =
     (Inr (status_confirmed (getSignatureStatus env (calls w GetSignatureStatus) sg)),
      tick GetSignatureStatus w)"
  by (simp add: checkTransactionStatus_def io_catch_def io_bind_def await_def io_return_def
      status_confirmed_def reported_status_def split: sum.splits option.splits)

declare additional_checks.simps [simp del]

declare binade_up.simps [simp del] binade_down.simps [simp del]

lemma additional_checks_effect:
  "\<exists>w' k. additional_checks env sg i w = (Inr (), w') \<and> k \<le> 3 - i
     \<and> calls w' = (calls w)(GetSignatureStatus := calls w GetSignatureStatus + k)
     \<and> waited w' = waited w + 5000 * k \<and> posted w' = posted w
     \<and> processedComments w' = processedComments w \<and> invoked w' = invoked w"
proof (induction env sg i w rule: additional_checks.induct)
  case (1 env sg i w)
  show ?case
  proof (cases "i < 3")
    case False
    then show ?thesis
      by (subst additional_checks.simps) (auto intro: exI[of _ 0])
  next
    case True
    let ?w1 = "tick GetSignatureStatus (w\<lparr>waited := waited w + 5000\<rparr>)"
    let ?b = "status_confirmed (getSignatureStatus env (calls w GetSignatureStatus) sg)"
    have step: "io_bind (delay 5000) (\<lambda>_. checkTransactionStatus env sg) w = (Inr ?b, ?w1)"
      by (simp add: io_bind_def delay_def checkTransactionStatus_eq tick_def)
    show ?thesis
    proof (cases ?b)
      case True
      with \<open>i < 3\<close> step show ?thesis
        by (subst additional_checks.simps) (auto simp: tick_def intro!: exI[of _ 1])
    next
      case False
      from "1.IH"[OF \<open>i < 3\<close> step[symmetric] refl False]
      obtain w' k where r: "additional_checks env sg (Suc i) ?w1 = (Inr (), w')"
        and k: "k \<le> 3 - Suc i"
        and c: "calls w' = (calls ?w1)(GetSignatureStatus := calls ?w1 GetSignatureStatus + k)"
        and rest: "waited w' = waited ?w1 + 5000 * k" "posted w' = posted ?w1"
          "processedComments w' = processedComments ?w1" "invoked w' = invoked ?w1"
        by blast
      have "additional_checks env sg i w = (Inr (), w')"
        using \<open>i < 3\<close> step False r by (subst additional_checks.simps) simp
      moreover have "Suc k \<le> 3 - i" using k \<open>i < 3\<close> by simp
      moreover have "calls w' = (calls w)(GetSignatureStatus := calls w GetSignatureStatus + Suc k)"
        using c by (auto simp: tick_def fun_eq_iff)
      moreover have "waited w' = waited w + 5000 * Suc k" using rest by (simp add: tick_def)
      ultimately show ?thesis using rest by (auto simp: tick_def intro!: exI[of _ "Suc k"])
    qed
  qed
qed

lemma additional_checks_exhaust:
  assumes "\<not> status_confirmed (getSignatureStatus env (calls w GetSignatureStatus) sg)"
    and "\<not> status_confirmed (getSignatureStatus env (calls w GetSignatureStatus + 1) sg)"
    and "\<not> status_confirmed (getSignatureStatus env (calls w GetSignatureStatus + 2) sg)"
  shows "additional_checks env sg 0 w =
     (Inr (), w\<lparr>calls := (calls w)(GetSignatureStatus := calls w GetSignatureStatus + 3),
               waited := waited w + 15000\<rparr>)"
  using assms
  apply (subst additional_checks.simps)
  apply (simp add: io_bind_def delay_def checkTransactionStatus_eq tick_def)
  apply (subst additional_checks.simps)
  apply (simp add: io_bind_def delay_def checkTransactionStatus_eq tick_def)
  apply (subst additional_checks.simps)
  apply (simp add: io_bind_def delay_def checkTransactionStatus_eq tick_def)
  apply (subst additional_checks.simps)
  apply (simp add: numeral_3_eq_3)
  done

lemma keepsD: "keeps f m \<Longrightarrow> m w = (r, w') \<Longrightarrow> f w' = f w"
  by (auto simp: keeps_def dest: spec[of _ w])

lemma keeps_return: "keeps f (io_return x)"
  by (simp add: keeps_def io_return_def)

lemma keeps_throw: "keeps f (io_throw e)"
  by (simp add: keeps_def io_throw_def)

lemma keeps_of: "keeps f (io_of r)"
  by (simp add: keeps_def io_of_def)

lemma keeps_bind: "keeps f m \<Longrightarrow> (\<And>x. keeps f (g x)) \<Longrightarrow> keeps f (io_bind m g)"
  by (auto simp: keeps_def io_bind_def split: prod.splits sum.splits)
     (metis snd_conv)+

lemma keeps_catch: "keeps f m \<Longrightarrow> (\<And>e. keeps f (h e)) \<Longrightarrow> keeps f (io_catch m h)"
  by (auto simp: keeps_def io_catch_def split: prod.splits sum.splits)
     (metis snd_conv)+

lemma keeps_if: "keeps f a \<Longrightarrow> keeps f b \<Longrightarrow> keeps f (if c then a else b)"
  by simp

lemma keeps_await:
  "keeps posted (await s r)"
  "keeps processedComments (await s r)"
  "keeps invoked (await s r)"
  "keeps waited (await s r)"
  "s \<noteq> s' \<Longrightarrow> keeps (\<lambda>w. calls w s') (await s r)"
  by (simp_all add: keeps_def await_def tick_def)

lemma keeps_delay:
  "keeps posted (delay n)"
  "keeps processedComments (delay n)"
  "keeps invoked (delay n)"
  "keeps (\<lambda>w. calls w s) (delay n)"
  by (simp_all add: keeps_def delay_def)

lemmas keeps_intros = keeps_return keeps_throw keeps_of keeps_bind keeps_catch keeps_if
  keeps_await keeps_delay

lemma keeps_checkTransactionStatus:
  "keeps posted (checkTransactionStatus env sg)"
  "keeps processedComments (checkTransactionStatus env sg)"
  "keeps invoked (checkTransactionStatus env sg)"
  "s \<noteq> GetSignatureStatus \<Longrightarrow> keeps (\<lambda>w. calls w s) (checkTransactionStatus env sg)"
  by (simp_all add: keeps_def checkTransactionStatus_eq tick_def)

lemma keeps_additional_checks:
  "keeps posted (additional_checks env sg i)"
  "keeps processedComments (additional_checks env sg i)"
  "keeps invoked (additional_checks env sg i)"
  "s \<noteq> GetSignatureStatus \<Longrightarrow> keeps (\<lambda>w. calls w s) (additional_checks env sg i)"
  unfolding keeps_def
  using additional_checks_effect[of env sg i]
  by (metis snd_conv, metis snd_conv, metis snd_conv, metis snd_conv fun_upd_other)

lemma keeps_createBountyTransaction:
  "keeps posted (createBountyTransaction env c)"
  "keeps processedComments (createBountyTransaction env c)"
  "keeps invoked (createBountyTransaction env c)"
  "s \<notin> {GetIssue, GetRepository, Fetch} \<Longrightarrow> keeps (\<lambda>w. calls w s) (createBountyTransaction env c)"
  unfolding createBountyTransaction_def getIssueFromUrl_def getRepositoryFromUrl_def Let_def
  by (auto intro!: keeps_intros)

lemma keeps_signAndSendTransaction:
  "keeps posted (signAndSendTransaction env stx)"
  "keeps processedComments (signAndSendTransaction env stx)"
  "keeps invoked (signAndSendTransaction env stx)"
  "s \<in> {GetIssue, GetRepository, Fetch, CreateComment, ListComments}
     \<Longrightarrow> keeps (\<lambda>w. calls w s) (signAndSendTransaction env stx)"
  unfolding signAndSendTransaction_def
  by (auto intro!: keeps_intros keeps_checkTransactionStatus keeps_additional_checks
      split: option.splits)


lemma tick_simps [simp]:
  "calls (tick s w) s' = (if s' = s then Suc (calls w s) else calls w s')"
  "posted (tick s w) = posted w"
  "waited (tick s w) = waited w"
  "processedComments (tick s w) = processedComments w"
  "invoked (tick s w) = invoked w"
  by (simp_all add: tick_def)

lemma commentOnIssue_eq:
  "commentOnIssue env ow rp n b w =
     (case createComment env (calls w CreateComment)
             \<lparr>c_owner = ow, c_repo = rp, c_issue_number = n, c_body = b\<rparr> of
        Inl e \<Rightarrow> (Inl e, tick CreateComment w)
      | Inr u \<Rightarrow> (Inr (), (tick CreateComment w)
           \<lparr>posted := posted w @ [\<lparr>c_owner = ow, c_repo = rp, c_issue_number = n, c_body = b\<rparr>]\<rparr>))"
  by (simp add: commentOnIssue_def io_bind_def await_def tick_def Let_def split: sum.splits)

lemma keeps_commentOnIssue:
  "keeps processedComments (commentOnIssue env ow rp n b)"
  "keeps invoked (commentOnIssue env ow rp n b)"
  by (simp_all add: keeps_def commentOnIssue_eq tick_def split: sum.splits)

lemma keeps_getIssueFromUrl:
  "keeps posted (getIssueFromUrl env u)"
  "keeps processedComments (getIssueFromUrl env u)"
  "keeps invoked (getIssueFromUrl env u)"
  by (simp_all add: getIssueFromUrl_def keeps_await)

lemma commentOnIssue_effect:
  assumes "commentOnIssue env ow rp n b w = (res, w')"
  shows "processedComments w' = processedComments w \<and> invoked w' = invoked w \<and>
     ((\<exists>e. res = Inl e \<and> posted w' = posted w) \<or>
      (res = Inr () \<and> posted w' = posted w @
          [\<lparr>c_owner = ow, c_repo = rp, c_issue_number = n, c_body = b\<rparr>]))"
proof (cases "createComment env (calls w CreateComment)
             \<lparr>c_owner = ow, c_repo = rp, c_issue_number = n, c_body = b\<rparr>")
  case (Inl e)
  from assms have "res = Inl e" "w' = tick CreateComment w"
    by (simp_all add: commentOnIssue_eq Inl)
  then show ?thesis by simp
next
  case (Inr u)
  from assms have "res = Inr ()" "w' = (tick CreateComment w)
           \<lparr>posted := posted w @ [\<lparr>c_owner = ow, c_repo = rp, c_issue_number = n, c_body = b\<rparr>]\<rparr>"
    by (simp_all add: commentOnIssue_eq Inr)
  then show ?thesis by simp
qed

lemma report_success_eq:
  "report_success env cmd resp sg w =
     (case getIssue env (calls w GetIssue) (issueUrl cmd) of
        Inl e \<Rightarrow> (Inl e, tick GetIssue w)
      | Inr issue \<Rightarrow>
          commentOnIssue env (fst (getRepoInfoFromUrl (repository_url issue)))
            (snd (getRepoInfoFromUrl (repository_url issue))) (issue_number issue)
            (BountyCreated (taskId resp) (amount cmd) (tokenType_of (tokenAddress cmd))
               (statusNote_of (status_confirmed
                  (getSignatureStatus env (calls w GetSignatureStatus) sg)))
               (bountyUrl_of (taskId resp)) (explorerUrl_of sg))
            (tick GetSignatureStatus (tick GetIssue w)))"
  by (simp add: report_success_def getIssueFromUrl_def io_bind_def await_def
      checkTransactionStatus_eq tick_def Let_def split: sum.splits prod.splits)

lemma report_success_effect:
  assumes "report_success env cmd resp sg w = (res, w')"
  shows "processedComments w' = processedComments w \<and> invoked w' = invoked w \<and>
     ((\<exists>e. res = Inl e \<and> posted w' = posted w) \<or>
      (res = Inr () \<and> (\<exists>c note. posted w' = posted w @ [c] \<and>
         c_body c = BountyCreated (taskId resp) (amount cmd) (tokenType_of (tokenAddress cmd))
                      note (bountyUrl_of (taskId resp)) (explorerUrl_of sg))))"
proof (cases "getIssue env (calls w GetIssue) (issueUrl cmd)")
  case (Inl e)
  from assms have "res = Inl e" "w' = tick GetIssue w"
    by (simp_all add: report_success_eq Inl)
  then show ?thesis by simp
next
  case (Inr issue)
  with assms have "commentOnIssue env (fst (getRepoInfoFromUrl (repository_url issue)))
            (snd (getRepoInfoFromUrl (repository_url issue))) (issue_number issue)
            (BountyCreated (taskId resp) (amount cmd) (tokenType_of (tokenAddress cmd))
               (statusNote_of (status_confirmed
                  (getSignatureStatus env (calls w GetSignatureStatus) sg)))
               (bountyUrl_of (taskId resp)) (explorerUrl_of sg))
            (tick GetSignatureStatus (tick GetIssue w)) = (res, w')"
    by (simp add: report_success_eq)
  from commentOnIssue_effect[OF this] show ?thesis
    by auto
qed

lemma recover_success_eq:
  "recover_success env cmd so ro w =
     (case (so, ro) of
        (Some sg, Some resp) \<Rightarrow>
          if truthy sg \<and> status_confirmed (getSignatureStatus env (calls w GetSignatureStatus) sg)
          then (case getIssue env (calls w GetIssue) (issueUrl cmd) of
                  Inl e \<Rightarrow> (Inr False, tick GetIssue (tick GetSignatureStatus w))
                | Inr issue \<Rightarrow>
                   (case commentOnIssue env (fst (getRepoInfoFromUrl (repository_url issue)))
                      (snd (getRepoInfoFromUrl (repository_url issue))) (issue_number issue)
                      (BountyCreatedWithIssues (amount cmd) (tokenType_of (tokenAddress cmd))
                         (bountyUrl_of (taskId resp)) (explorerUrl_of sg))
                      (tick GetIssue (tick GetSignatureStatus w)) of
                      (Inl e, w') \<Rightarrow> (Inr False, w')
                    | (Inr u, w') \<Rightarrow> (Inr True, w')))
          else if truthy sg then (Inr False, tick GetSignatureStatus w) else (Inr False, w)
      | _ \<Rightarrow> (Inr False, w))"
  by (simp add: recover_success_def getIssueFromUrl_def io_bind_def io_catch_def await_def
      io_return_def checkTransactionStatus_eq Let_def
      split: sum.splits prod.splits option.splits)

lemma recover_success_effect:
  assumes "recover_success env cmd so ro w = (res, w')"
  shows "processedComments w' = processedComments w \<and> invoked w' = invoked w \<and>
     ((res = Inr False \<and> posted w' = posted w) \<or>
      (res = Inr True \<and> (\<exists>c sg resp. so = Some sg \<and> truthy sg \<and> ro = Some resp \<and>
         posted w' = posted w @ [c] \<and>
         c_body c = BountyCreatedWithIssues (amount cmd) (tokenType_of (tokenAddress cmd))
                      (bountyUrl_of (taskId resp)) (explorerUrl_of sg))))"
proof (cases "\<exists>sg resp issue. so = Some sg \<and> ro = Some resp \<and> truthy sg
    \<and> status_confirmed (getSignatureStatus env (calls w GetSignatureStatus) sg)
    \<and> getIssue env (calls w GetIssue) (issueUrl cmd) = Inr issue")
  case False
  with assms show ?thesis
    by (auto simp: recover_success_eq tick_def split: option.splits if_splits sum.splits)
next
  case True
  then obtain sg resp issue where h: "so = Some sg" "ro = Some resp" "truthy sg"
    "status_confirmed (getSignatureStatus env (calls w GetSignatureStatus) sg)"
    "getIssue env (calls w GetIssue) (issueUrl cmd) = Inr issue" by blast
  obtain r2 w2 where c: "commentOnIssue env (fst (getRepoInfoFromUrl (repository_url issue)))
                      (snd (getRepoInfoFromUrl (repository_url issue))) (issue_number issue)
                      (BountyCreatedWithIssues (amount cmd) (tokenType_of (tokenAddress cmd))
                         (bountyUrl_of (taskId resp)) (explorerUrl_of sg))
                      (tick GetIssue (tick GetSignatureStatus w)) = (r2, w2)"
    by (meson surj_pair)
  from assms h c have rw: "(res, w') = (case r2 of Inl e \<Rightarrow> (Inr False, w2) | Inr u \<Rightarrow> (Inr True, w2))"
    by (simp add: recover_success_eq split: sum.splits)
  from commentOnIssue_effect[OF c] rw h show ?thesis
    by (auto simp: tick_def split: sum.splits)
qed

lemma report_failure_eq:
  "report_failure env cmd so ro e w =
     (case getIssue env (calls w GetIssue) (issueUrl cmd) of
        Inl e' \<Rightarrow> (Inr (), tick GetIssue w)
      | Inr issue \<Rightarrow>
         (case commentOnIssue env (fst (getRepoInfoFromUrl (repository_url issue)))
                 (snd (getRepoInfoFromUrl (repository_url issue))) (issue_number issue)
                 (IssueWithBountyCreation (failure_message e so ro)) (tick GetIssue w) of
            (Inl e', w') \<Rightarrow> (Inr (), w')
          | (Inr u, w') \<Rightarrow> (Inr (), w')))"
  by (simp add: report_failure_def getIssueFromUrl_def io_bind_def io_catch_def await_def
      io_return_def Let_def split: sum.splits prod.splits)

lemma report_failure_effect:
  assumes "report_failure env cmd so ro e w = (res, w')"
  shows "res = Inr () \<and> processedComments w' = processedComments w \<and> invoked w' = invoked w \<and>
     (posted w' = posted w \<or>
      (\<exists>c. posted w' = posted w @ [c] \<and>
         c_body c = IssueWithBountyCreation (failure_message e so ro)))"
proof (cases "getIssue env (calls w GetIssue) (issueUrl cmd)")
  case (Inl e')
  from assms have "res = Inr ()" "w' = tick GetIssue w"
    by (simp_all add: report_failure_eq Inl)
  then show ?thesis by simp
next
  case (Inr issue)
  obtain r2 w2 where c: "commentOnIssue env (fst (getRepoInfoFromUrl (repository_url issue)))
                 (snd (getRepoInfoFromUrl (repository_url issue))) (issue_number issue)
                 (IssueWithBountyCreation (failure_message e so ro)) (tick GetIssue w) = (r2, w2)"
    by (meson surj_pair)
  from assms Inr c have rw: "res = Inr ()" "w' = w2"
    by (auto simp add: report_failure_eq split: sum.splits)
  from commentOnIssue_effect[OF c] rw show ?thesis
    by (auto simp: tick_def)
qed

lemma catch_block_effect:
  assumes "catch_block env cmd so ro e w = (res, w')"
  shows "res = Inr () \<and> processedComments w' = processedComments w \<and> invoked w' = invoked w \<and>
     (posted w' = posted w \<or>
      (\<exists>c. posted w' = posted w @ [c] \<and>
         (c_body c = IssueWithBountyCreation (failure_message e so ro) \<or>
          (\<exists>sg resp. so = Some sg \<and> truthy sg \<and> ro = Some resp \<and>
             c_body c = BountyCreatedWithIssues (amount cmd) (tokenType_of (tokenAddress cmd))
                      (bountyUrl_of (taskId resp)) (explorerUrl_of sg)))))"
proof -
  obtain r1 w1 where r1: "recover_success env cmd so ro w = (r1, w1)"
    by (cases "recover_success env cmd so ro w")
  note e1 = recover_success_effect[OF r1]
  show ?thesis
  proof (cases "r1 = Inr True")
    case True
    with assms r1 have "res = Inr ()" "w' = w1"
      by (auto simp: catch_block_def io_bind_def io_return_def)
    with e1 True show ?thesis by auto
  next
    case False
    with e1 have f: "r1 = Inr False" "posted w1 = posted w" by auto
    with assms r1 have "report_failure env cmd so ro e w1 = (res, w')"
      by (auto simp: catch_block_def io_bind_def io_return_def)
    from report_failure_effect[OF this] e1 f show ?thesis by auto
  qed
qed

lemma processBountyCommand_effect:
  assumes "processBountyCommand env cmd w = (res, w')"
  shows "res = Inr () \<and> processedComments w' = processedComments w \<and> invoked w' = invoked w \<and>
     (posted w' = posted w \<or> (\<exists>c. posted w' = posted w @ [c]))"
proof -
  obtain r1 w1 where c1: "createBountyTransaction env cmd w = (r1, w1)" by (meson surj_pair)
  note k1 = keepsD[OF keeps_createBountyTransaction(1) c1]
    keepsD[OF keeps_createBountyTransaction(2) c1] keepsD[OF keeps_createBountyTransaction(3) c1]
  show ?thesis
  proof (cases r1)
    case (Inl e)
    with assms c1 have "catch_block env cmd None None e w1 = (res, w')"
      by (simp add: processBountyCommand_def)
    from catch_block_effect[OF this] k1 show ?thesis by auto
  next
    case (Inr resp)
    obtain r2 w2 where c2: "signAndSendTransaction env (serializedTransaction resp) w1 = (r2, w2)"
      by (meson surj_pair)
    note k2 = keepsD[OF keeps_signAndSendTransaction(1) c2]
      keepsD[OF keeps_signAndSendTransaction(2) c2] keepsD[OF keeps_signAndSendTransaction(3) c2]
    show ?thesis
    proof (cases r2)
      case (Inl e)
      with assms c1 c2 Inr have "catch_block env cmd None (Some resp) e w2 = (res, w')"
        by (simp add: processBountyCommand_def)
      from catch_block_effect[OF this] k1 k2 show ?thesis by auto
    next
      case sg: (Inr sg)
      obtain r3 w3 where c3: "report_success env cmd resp sg w2 = (r3, w3)" by (meson surj_pair)
      note e3 = report_success_effect[OF c3]
      show ?thesis
      proof (cases r3)
        case (Inl e)
        with assms c1 c2 c3 Inr sg
        have "catch_block env cmd (Some sg) (Some resp) e w3 = (res, w')"
          by (simp add: processBountyCommand_def)
        from catch_block_effect[OF this] e3 Inl k1 k2 show ?thesis by auto
      next
        case u: (Inr u)
        with assms c1 c2 c3 Inr sg have "res = Inr ()" "w' = w3"
          by (simp_all add: processBountyCommand_def)
        with e3 u k1 k2 show ?thesis by auto
      qed
    qed
  qed
qed

text \<open>\<open>signAndSendTransaction\<close>, path by path.\<close>

lemma signAndSend_sign_fails:
  assumes "signTransaction env stx = Inl e" "\<not> carries_signature e"
  shows "signAndSendTransaction env stx w = (Inl e, w)"
  using assms
  by (simp add: signAndSendTransaction_def io_catch_def io_bind_def io_of_def io_throw_def
      carries_signature_def split: option.splits)

lemma signAndSend_send_fails:
  assumes "signTransaction env stx = Inr tx"
    "sendTransaction env (calls w SendTransaction) tx = Inl e" "\<not> carries_signature e"
  shows "signAndSendTransaction env stx w = (Inl e, tick SendTransaction w)"
  using assms
  by (simp add: signAndSendTransaction_def io_catch_def io_bind_def io_of_def io_throw_def
      await_def carries_signature_def split: option.splits)

lemma signAndSend_fallback_confirmed:
  assumes "signTransaction env stx = Inr tx"
    "sendTransaction env (calls w SendTransaction) tx = Inr sg"
    "getLatestBlockhash env (calls w GetLatestBlockhash) = Inl e
     \<or> confirmTransaction env (calls w ConfirmTransaction) sg = Inl e"
    "status_confirmed (getSignatureStatus env (calls w GetSignatureStatus) sg)"
  shows "\<exists>w'. signAndSendTransaction env stx w = (Inr sg, w')
     \<and> calls w' GetSignatureStatus = Suc (calls w GetSignatureStatus)
     \<and> waited w' = waited w + 5000"
  using assms
  by (auto simp add: signAndSendTransaction_def io_catch_def io_bind_def io_of_def io_throw_def
      io_return_def await_def delay_def checkTransactionStatus_eq split: sum.splits)

lemma signAndSend_signature_lost:
  assumes "signTransaction env stx = Inr tx"
    "sendTransaction env (calls w SendTransaction) tx = Inr sg"
    "getLatestBlockhash env (calls w GetLatestBlockhash) = Inl e
     \<or> (\<exists>lb. getLatestBlockhash env (calls w GetLatestBlockhash) = Inr lb)
        \<and> confirmTransaction env (calls w ConfirmTransaction) sg = Inl e"
    "\<not> blockheight_exceeded e"
    "\<not> status_confirmed (getSignatureStatus env (calls w GetSignatureStatus) sg)"
  shows "fst (signAndSendTransaction env stx w)
     = Inl (new_Error (''Transaction may have failed: '' @ error_message e))"
  using assms
  by (auto simp add: signAndSendTransaction_def io_catch_def io_bind_def io_of_def io_throw_def
      io_return_def await_def delay_def checkTransactionStatus_eq new_Error_def
      split: sum.splits)

lemma signAndSend_blockheight:
  assumes "signTransaction env stx = Inr tx"
    "sendTransaction env (calls w SendTransaction) tx = Inr sg"
    "getLatestBlockhash env (calls w GetLatestBlockhash) = Inr lb"
    "confirmTransaction env (calls w ConfirmTransaction) sg = Inl e"
    "blockheight_exceeded e"
    "\<not> status_confirmed (getSignatureStatus env (calls w GetSignatureStatus) sg)"
  shows "\<exists>w' k. signAndSendTransaction env stx w = (Inr sg, w') \<and> k \<le> 3
     \<and> calls w' GetSignatureStatus = calls w GetSignatureStatus + 1 + k
     \<and> waited w' = waited w + 5000 * (1 + k)
     \<and> (\<not> status_confirmed (getSignatureStatus env (calls w GetSignatureStatus + 1) sg)
        \<and> \<not> status_confirmed (getSignatureStatus env (calls w GetSignatureStatus + 2) sg)
        \<and> \<not> status_confirmed (getSignatureStatus env (calls w GetSignatureStatus + 3) sg)
        \<longrightarrow> k = 3)"
proof -
  let ?w2 = "tick GetSignatureStatus ((tick ConfirmTransaction (tick GetLatestBlockhash
      (tick SendTransaction w)))\<lparr>waited := waited w + 5000\<rparr>)"
  obtain w' k where a: "additional_checks env sg 0 ?w2 = (Inr (), w')" and k: "k \<le> 3"
    and c: "calls w' = (calls ?w2)(GetSignatureStatus := calls ?w2 GetSignatureStatus + k)"
    and wt: "waited w' = waited ?w2 + 5000 * k"
    using additional_checks_effect[of env sg 0 ?w2] by auto
  have r: "signAndSendTransaction env stx w = (Inr sg, w')"
    using assms a
    by (simp add: signAndSendTransaction_def io_catch_def io_bind_def io_of_def io_throw_def
        io_return_def await_def delay_def checkTransactionStatus_eq)
  have ex: "k = 3"
    if "\<not> status_confirmed (getSignatureStatus env (calls w GetSignatureStatus + 1) sg)"
      "\<not> status_confirmed (getSignatureStatus env (calls w GetSignatureStatus + 2) sg)"
      "\<not> status_confirmed (getSignatureStatus env (calls w GetSignatureStatus + 3) sg)"
  proof -
    have "additional_checks env sg 0 ?w2 =
      (Inr (), ?w2\<lparr>calls := (calls ?w2)(GetSignatureStatus := calls ?w2 GetSignatureStatus + 3),
               waited := waited ?w2 + 15000\<rparr>)"
      by (rule additional_checks_exhaust) (use that in \<open>simp_all add: numeral_2_eq_2 numeral_3_eq_3\<close>)
    with a have "waited w' = waited ?w2 + 15000" by auto
    with wt show ?thesis by simp
  qed
  from r k c wt ex show ?thesis by (intro exI[of _ w'] exI[of _ k]) auto
qed

lemma createBountyTransaction_issue_calls:
  assumes "createBountyTransaction env cmd w = (Inr resp, w1)"
  shows "calls w1 GetIssue = Suc (calls w GetIssue)"
  using assms
  by (auto simp: createBountyTransaction_def getIssueFromUrl_def getRepositoryFromUrl_def
      io_catch_def io_bind_def io_throw_def io_of_def await_def Let_def
      split: sum.splits if_splits)

lemma keeps_waited_createBountyTransaction: "keeps waited (createBountyTransaction env c)"
  unfolding createBountyTransaction_def getIssueFromUrl_def getRepositoryFromUrl_def Let_def
  by (auto intro!: keeps_intros)

text \<open>Rewrite rules that run the pipeline on a concrete environment.\<close>

lemmas run_simps = processBountyCommand_def createBountyTransaction_def
  signAndSendTransaction_def catch_block_def report_success_eq recover_success_eq
  report_failure_eq commentOnIssue_eq checkTransactionStatus_eq getIssueFromUrl_def
  getRepositoryFromUrl_def io_bind_def io_catch_def io_return_def io_throw_def io_of_def
  await_def delay_def Let_def

lemmas scenario_simps = nominal_env_def initial_world_def truthy_def
  example_command_def example_response_def example_issue_def timeout_error_def
  blockheight_error_def new_Error_def status_confirmed_def reported_status_def
  status_answer_def posted_on_example_issue_def carries_signature_def
  tokenType_of_def statusNote_of_def bountyUrl_of_def explorerUrl_of_def

lemma example_repo_info:
  "getRepoInfoFromUrl ''https://api.github.com/repos/acme/widget''
     = (Some ''acme'', Some ''widget'')"
  by (simp add: getRepoInfoFromUrl_def at_index_def Let_def)

lemma recover_success_no_signature:
  "recover_success env cmd None ro w = (Inr False, w)"
  by (simp add: recover_success_eq)

lemma report_failure_answers:
  assumes "github_answers env"
  shows "\<exists>c w'. report_failure env cmd so ro e w = (Inr (), w') \<and> posted w' = posted w @ [c]"
proof -
  from assms obtain issue where i: "getIssue env (calls w GetIssue) (issueUrl cmd) = Inr issue"
    unfolding github_answers_def by blast
  from assms have p: "\<And>n c. createComment env n c = Inr ()"
    unfolding github_answers_def by blast
  show ?thesis by (simp add: report_failure_eq i commentOnIssue_eq p)
qed

lemma report_success_answers:
  assumes "github_answers env"
  shows "\<exists>c w'. report_success env cmd resp sg w = (Inr (), w') \<and> posted w' = posted w @ [c]"
proof -
  from assms obtain issue where i: "getIssue env (calls w GetIssue) (issueUrl cmd) = Inr issue"
    unfolding github_answers_def by blast
  from assms have p: "\<And>n c. createComment env n c = Inr ()"
    unfolding github_answers_def by blast
  show ?thesis by (simp add: report_success_eq i commentOnIssue_eq p)
qed

lemma processBountyCommand_answers:
  assumes g: "github_answers env"
  shows "\<exists>c. posted (snd (processBountyCommand env cmd w)) = posted w @ [c]"
proof -
  obtain r1 w1 where c1: "createBountyTransaction env cmd w = (r1, w1)" by (meson surj_pair)
  note k1 = keepsD[OF keeps_createBountyTransaction(1) c1]
  show ?thesis
  proof (cases r1)
    case (Inl e)
    from report_failure_answers[OF g, of cmd None None e w1]
    obtain c w' where "report_failure env cmd None None e w1 = (Inr (), w')"
      "posted w' = posted w1 @ [c]" by blast
    with Inl c1 k1 show ?thesis
      by (simp add: processBountyCommand_def catch_block_def io_bind_def
          recover_success_no_signature)
  next
    case (Inr resp)
    obtain r2 w2 where c2: "signAndSendTransaction env (serializedTransaction resp) w1 = (r2, w2)"
      by (meson surj_pair)
    note k2 = keepsD[OF keeps_signAndSendTransaction(1) c2]
    show ?thesis
    proof (cases r2)
      case (Inl e)
      from report_failure_answers[OF g, of cmd None "Some resp" e w2]
      obtain c w' where "report_failure env cmd None (Some resp) e w2 = (Inr (), w')"
        "posted w' = posted w2 @ [c]" by blast
      with Inl Inr c1 c2 k1 k2 show ?thesis
        by (simp add: processBountyCommand_def catch_block_def io_bind_def
            recover_success_no_signature)
    next
      case sg: (Inr sg)
      from report_success_answers[OF g, of cmd resp sg w2]
      obtain c w' where "report_success env cmd resp sg w2 = (Inr (), w')"
        "posted w' = posted w2 @ [c]" by blast
      with sg Inr c1 c2 k1 k2 show ?thesis
        by (simp add: processBountyCommand_def)
    qed
  qed
qed

lemma processBountyCommand_returns: "fst (processBountyCommand env cmd w) = Inr ()"
  using processBountyCommand_effect[of env cmd w] by (metis prod.collapse)

lemma processBountyCommand_frame:
  "processedComments (snd (processBountyCommand env cmd w)) = processedComments w"
  "invoked (snd (processBountyCommand env cmd w)) = invoked w"
  using processBountyCommand_effect[of env cmd w] by (metis prod.collapse)+

lemma processBountyCommand_posts:
  "\<exists>cs. posted (snd (processBountyCommand env cmd w)) = posted w @ cs \<and> length cs \<le> 1
     \<and> (github_answers env \<longrightarrow> length cs = 1)"
proof (cases "github_answers env")
  case True
  from processBountyCommand_answers[OF this, of cmd w] obtain c
    where "posted (snd (processBountyCommand env cmd w)) = posted w @ [c]" ..
  then show ?thesis by (intro exI[of _ "[c]"]) simp
next
  case False
  obtain res w' where p: "processBountyCommand env cmd w = (res, w')" by (meson surj_pair)
  from processBountyCommand_effect[OF p]
  have "posted w' = posted w \<or> (\<exists>c. posted w' = posted w @ [c])" by simp
  then show ?thesis
  proof
    assume "posted w' = posted w"
    with p False show ?thesis by (intro exI[of _ "[]"]) simp
  next
    assume "\<exists>c. posted w' = posted w @ [c]"
    then obtain c where "posted w' = posted w @ [c]" ..
    with p False show ?thesis by (intro exI[of _ "[c]"]) simp
  qed
qed

text \<open>The poll loop.\<close>

lemma process_comments_effect:
  "\<exists>w' new. process_comments env cs w = (Inr (), w')
     \<and> processedComments w' = processedComments w \<union> comment_id ` set cs
     \<and> invoked w' = invoked w @ new \<and> distinct (map fst new)
     \<and> fst ` set new \<subseteq> comment_id ` set cs - processedComments w
     \<and> (\<exists>ps. posted w' = posted w @ ps \<and> length ps \<le> length new)"
proof (induction cs arbitrary: w)
  case Nil
  show ?case by (intro exI[of _ w] exI[of _ "[]"]) simp
next
  case (Cons c cs)
  show ?case
  proof (cases "comment_id c \<in> processedComments w")
    case True
    from Cons.IH[of w] obtain w' new where h: "process_comments env cs w = (Inr (), w')"
      "processedComments w' = processedComments w \<union> comment_id ` set cs"
      "invoked w' = invoked w @ new" "distinct (map fst new)"
      "fst ` set new \<subseteq> comment_id ` set cs - processedComments w"
      "\<exists>ps. posted w' = posted w @ ps \<and> length ps \<le> length new" by blast
    with True show ?thesis
      by (intro exI[of _ w'] exI[of _ new]) auto
  next
    case False
    let ?w1 = "w\<lparr>processedComments := insert (comment_id c) (processedComments w)\<rparr>"
    show ?thesis
    proof (cases "parseBountyCommand env c")
      case None
      from Cons.IH[of ?w1] obtain w' new where h: "process_comments env cs ?w1 = (Inr (), w')"
        "processedComments w' = processedComments ?w1 \<union> comment_id ` set cs"
        "invoked w' = invoked ?w1 @ new" "distinct (map fst new)"
        "fst ` set new \<subseteq> comment_id ` set cs - processedComments ?w1"
        "\<exists>ps. posted w' = posted ?w1 @ ps \<and> length ps \<le> length new" by blast
      with False None show ?thesis
        by (intro exI[of _ w'] exI[of _ new]) auto
    next
      case (Some cmd)
      let ?w2 = "?w1\<lparr>invoked := invoked ?w1 @ [(comment_id c, cmd)]\<rparr>"
      obtain w3 where p: "processBountyCommand env cmd ?w2 = (Inr (), w3)"
        using processBountyCommand_returns[of env cmd ?w2] by (metis prod.collapse)
      from processBountyCommand_effect[OF p]
      have e3: "processedComments w3 = insert (comment_id c) (processedComments w)"
        "invoked w3 = invoked w @ [(comment_id c, cmd)]"
        "posted w3 = posted w \<or> (\<exists>x. posted w3 = posted w @ [x])" by simp_all
      from Cons.IH[of w3] obtain w' new where h: "process_comments env cs w3 = (Inr (), w')"
        "processedComments w' = processedComments w3 \<union> comment_id ` set cs"
        "invoked w' = invoked w3 @ new" "distinct (map fst new)"
        "fst ` set new \<subseteq> comment_id ` set cs - processedComments w3"
        "\<exists>ps. posted w' = posted w3 @ ps \<and> length ps \<le> length new" by blast
      from h(6) obtain ps where ps: "posted w' = posted w3 @ ps" "length ps \<le> length new"
        by blast
      from e3(3) ps have "\<exists>qs. posted w' = posted w @ qs \<and> length qs \<le> Suc (length new)"
        by auto
      with False Some p h e3 show ?thesis
        by (intro exI[of _ w'] exI[of _ "(comment_id c, cmd) # new"]) auto
    qed
  qed
qed

lemma poll_step_refl: "poll_step w w"
  unfolding poll_step_def by (auto intro: exI[of _ "[]"])

lemma poll_step_trans:
  assumes "poll_step w1 w2" "poll_step w2 w3"
  shows "poll_step w1 w3"
proof -
  from assms(1) obtain n1 p1 where a: "processedComments w1 \<subseteq> processedComments w2"
    "invoked w2 = invoked w1 @ n1" "distinct (map fst n1)"
    "fst ` set n1 \<subseteq> processedComments w2 - processedComments w1"
    "posted w2 = posted w1 @ p1" "length p1 \<le> length n1"
    unfolding poll_step_def by blast
  from assms(2) obtain n2 p2 where b: "processedComments w2 \<subseteq> processedComments w3"
    "invoked w3 = invoked w2 @ n2" "distinct (map fst n2)"
    "fst ` set n2 \<subseteq> processedComments w3 - processedComments w2"
    "posted w3 = posted w2 @ p2" "length p2 \<le> length n2"
    unfolding poll_step_def by blast
  have "fst ` set n1 \<inter> fst ` set n2 = {}" using a(4) b(4) by blast
  then have "distinct (map fst (n1 @ n2))" using a(3) b(3) by simp
  moreover have "fst ` set (n1 @ n2) \<subseteq> processedComments w3 - processedComments w1"
    using a b by auto
  moreover have "invoked w3 = invoked w1 @ (n1 @ n2)" using a b by simp
  moreover have "posted w3 = posted w1 @ (p1 @ p2)" "length (p1 @ p2) \<le> length (n1 @ n2)"
    using a b by simp_all
  moreover have "processedComments w1 \<subseteq> processedComments w3" using a b by blast
  ultimately show ?thesis unfolding poll_step_def by blast
qed

lemma poll_step_tick: "poll_step w (tick s w)"
  unfolding poll_step_def by (auto intro: exI[of _ "[]"])

lemma process_comments_poll_step:
  "\<exists>w'. process_comments env cs w = (Inr (), w') \<and> poll_step w w'"
proof -
  from process_comments_effect[of env cs w] obtain w' new where
    h: "process_comments env cs w = (Inr (), w')"
    "processedComments w' = processedComments w \<union> comment_id ` set cs"
    "invoked w' = invoked w @ new" "distinct (map fst new)"
    "fst ` set new \<subseteq> comment_id ` set cs - processedComments w"
    "\<exists>ps. posted w' = posted w @ ps \<and> length ps \<le> length new" by blast
  have "poll_step w w'" unfolding poll_step_def using h by auto
  with h(1) show ?thesis by blast
qed

lemma getRecentComments_eq:
  "getRecentComments env ow rp w =
     (Inr (case listCommentsForRepo env (calls w ListComments) ow rp of
             Inl e \<Rightarrow> [] | Inr cs \<Rightarrow> cs), tick ListComments w)"
  by (simp add: getRecentComments_def io_catch_def await_def io_return_def split: sum.splits)

lemma check_repositories_Cons_eq:
  "check_repositories env (r # rs) w =
     check_repositories env rs
       (snd (process_comments env
          (case listCommentsForRepo env (calls w ListComments) (fst (parseRepoFullName r))
                  (snd (parseRepoFullName r)) of Inl e \<Rightarrow> [] | Inr cs \<Rightarrow> cs)
          (tick ListComments w)))"
proof -
  let ?cs = "case listCommentsForRepo env (calls w ListComments) (fst (parseRepoFullName r))
               (snd (parseRepoFullName r)) of Inl e \<Rightarrow> [] | Inr cs \<Rightarrow> cs"
  obtain w' where "process_comments env ?cs (tick ListComments w) = (Inr (), w')"
    using process_comments_poll_step by blast
  then show ?thesis
    by (simp add: io_catch_def io_bind_def getRecentComments_eq case_prod_beta Let_def)
qed

lemma check_repositories_poll_step:
  "\<exists>w'. check_repositories env rs w = (Inr (), w') \<and> poll_step w w'"
proof (induction rs arbitrary: w)
  case Nil
  show ?case by (simp add: poll_step_refl)
next
  case (Cons r rs)
  let ?cs = "case listCommentsForRepo env (calls w ListComments) (fst (parseRepoFullName r))
               (snd (parseRepoFullName r)) of Inl e \<Rightarrow> [] | Inr cs \<Rightarrow> cs"
  obtain w1 where p: "process_comments env ?cs (tick ListComments w) = (Inr (), w1)"
    and s1: "poll_step (tick ListComments w) w1"
    using process_comments_poll_step by blast
  from Cons.IH[of w1] obtain w' where c: "check_repositories env rs w1 = (Inr (), w')"
    and s2: "poll_step w1 w'" by blast
  have "check_repositories env (r # rs) w = (Inr (), w')"
    using p c by (simp only: check_repositories_Cons_eq snd_conv)
  moreover have "poll_step w w'"
    using poll_step_trans[OF poll_step_trans[OF poll_step_tick s1] s2] .
  ultimately show ?case by blast
qed

lemma checkForBountyCommands_poll_step:
  "fst (checkForBountyCommands env w) = Inr ()"
  "poll_step w (snd (checkForBountyCommands env w))"
  using check_repositories_poll_step[of env "REPOSITORIES env" w]
  by (auto simp: checkForBountyCommands_def)

lemma run_jobs_poll_step: "poll_step w (run_jobs env js w)"
proof (induction js arbitrary: w)
  case Nil
  show ?case by (simp add: poll_step_refl)
next
  case (Cons j js)
  show ?case
  proof (cases j)
    case Tick
    with poll_step_trans[OF checkForBountyCommands_poll_step(2) Cons.IH] show ?thesis by simp
  next
    case Cleanup
    with Cons.IH show ?thesis by (simp add: cleanupProcessedComments_def)
  qed
qed

lemma filter_distinct_fst:
  "distinct (map fst xs) \<Longrightarrow> length (filter (\<lambda>p. fst p = a) xs) \<le> 1"
  by (induction xs) (auto simp: filter_empty_conv image_iff)

lemma poll_step_seen:
  assumes "poll_step w w'" "cid \<in> processedComments w"
  shows "filter (\<lambda>p. fst p = cid) (invoked w') = filter (\<lambda>p. fst p = cid) (invoked w)"
proof -
  from assms(1) obtain new where n: "invoked w' = invoked w @ new"
    "fst ` set new \<subseteq> processedComments w' - processedComments w"
    unfolding poll_step_def by blast
  with assms(2) have "filter (\<lambda>p. fst p = cid) new = []"
    by (auto simp: filter_empty_conv)
  with n show ?thesis by simp
qed

lemma poll_step_once:
  assumes "poll_step w w'"
  shows "length (filter (\<lambda>p. fst p = cid) (invoked w'))
     \<le> length (filter (\<lambda>p. fst p = cid) (invoked w)) + 1"
proof -
  from assms obtain new where n: "invoked w' = invoked w @ new" "distinct (map fst new)"
    unfolding poll_step_def by blast
  from filter_distinct_fst[OF n(2), of cid] n(1) show ?thesis by simp
qed

text \<open>Numbers and \<open>parseFloat\<close>.\<close>

lemma list_all_takeWhile: "list_all P (takeWhile P xs)"
  by (induction xs) auto

lemma takeWhile_stop:
  assumes "list_all P xs" "ys = [] \<or> \<not> P (hd ys)"
  shows "takeWhile P (xs @ ys) = xs" "dropWhile P (xs @ ys) = ys"
proof -
  have "takeWhile P ys = []" "dropWhile P ys = ys"
    using assms(2) by (cases ys; auto)+
  with assms(1) show "takeWhile P (xs @ ys) = xs" "dropWhile P (xs @ ys) = ys"
    by (induction xs) auto
qed

lemma binade_up_bounds:
  "1 \<le> x \<Longrightarrow> e \<le> binade_up x e \<and> 2 powi (binade_up x e - e) \<le> x
     \<and> x < 2 powi (binade_up x e - e + 1)"
proof (induction x e rule: binade_up.induct)
  case (1 x e)
  show ?case
  proof (cases "2 \<le> x")
    case True
    then have s: "binade_up x e = binade_up (x / 2) (e + 1)"
      by (subst binade_up.simps) simp
    from True have "1 \<le> x / 2" by simp
    from 1(1)[OF True this]
    have ih: "e + 1 \<le> binade_up (x / 2) (e + 1)"
      "2 powi (binade_up (x / 2) (e + 1) - (e + 1)) \<le> x / 2"
      "x / 2 < 2 powi (binade_up (x / 2) (e + 1) - (e + 1) + 1)" by simp_all
    define k where "k = binade_up (x / 2) (e + 1) - (e + 1)"
    have k: "binade_up (x / 2) (e + 1) - e = k + 1" by (simp add: k_def)
    have p: "(2::rat) powi (k + 1) = 2 powi k * 2"
      "(2::rat) powi (k + 1 + 1) = 2 powi k * 4"
      by (simp_all add: power_int_add)
    from ih(2,3) have "2 powi k * 2 \<le> x" "x < 2 powi (k + 1) * 2"
      unfolding k_def[symmetric] by simp_all
    with ih(1) show ?thesis unfolding s k p by simp
  next
    case False
    then have "binade_up x e = e" by (subst binade_up.simps) simp
    with False 1(2) show ?thesis by simp
  qed
qed

lemma binade_down_bounds:
  "x < 1 \<Longrightarrow> - 1022 \<le> e \<Longrightarrow>
     - 1022 \<le> binade_down x e \<and> binade_down x e \<le> e
     \<and> x < 2 powi (binade_down x e - e + 1)
     \<and> (binade_down x e = - 1022 \<or> 2 powi (binade_down x e - e) \<le> x)"
proof (induction x e rule: binade_down.induct)
  case (1 x e)
  show ?case
  proof (cases "- 1022 < e")
    case True
    with 1(2) have s: "binade_down x e = binade_down (2 * x) (e - 1)"
      by (subst binade_down.simps) simp
    define k where "k = binade_down (2 * x) (e - 1) - (e - 1)"
    have k: "binade_down (2 * x) (e - 1) - e = k - 1"
      "binade_down (2 * x) (e - 1) - e + 1 = k"
      by (simp_all add: k_def)
    have p: "(2::rat) powi (k + 1) = 2 powi k * 2" "(2::rat) powi (k - 1) = 2 powi k / 2"
      by (simp_all add: power_int_add power_int_diff)
    show ?thesis
    proof (cases "2 * x < 1")
      case lt: True
      from True have "- 1022 \<le> e - 1" by simp
      from 1(1)[OF _ lt this] 1(2) True
      have ih: "- 1022 \<le> binade_down (2 * x) (e - 1)" "binade_down (2 * x) (e - 1) \<le> e - 1"
        "2 * x < 2 powi (k + 1)"
        "binade_down (2 * x) (e - 1) = - 1022 \<or> 2 powi k \<le> 2 * x"
        unfolding k_def by simp_all
      from ih show ?thesis unfolding s k p by auto
    next
      case False
      then have b: "binade_down (2 * x) (e - 1) = e - 1" by (subst binade_down.simps) simp
      then have "k = 0" by (simp add: k_def)
      with False 1(2) True show ?thesis unfolding s k p b by simp
    qed
  next
    case False
    then have "binade_down x e = e" by (subst binade_down.simps) simp
    with False 1(2,3) show ?thesis by simp
  qed
qed

lemma binade_bounds:
  "- 1022 \<le> binade x" "x < 2 powi (binade x + 1)" "binade x = - 1022 \<or> 2 powi binade x \<le> x"
proof -
  have "- 1022 \<le> binade x \<and> x < 2 powi (binade x + 1)
      \<and> (binade x = - 1022 \<or> 2 powi binade x \<le> x)"
  proof (cases "1 \<le> x")
    case True
    from binade_up_bounds[OF True, of 0] True show ?thesis by (simp add: binade_def)
  next
    case False
    then have "x < 1" by simp
    from binade_down_bounds[OF this, of 0] False show ?thesis by (simp add: binade_def)
  qed
  then show "- 1022 \<le> binade x" "x < 2 powi (binade x + 1)"
    "binade x = - 1022 \<or> 2 powi binade x \<le> x" by simp_all
qed

lemma round_half_even_ge: "of_int n \<le> x \<Longrightarrow> n \<le> round_half_even x"
proof -
  assume "of_int n \<le> x"
  then have "n \<le> \<lfloor>x\<rfloor>" by (simp add: le_floor_iff)
  then show ?thesis by (simp add: round_half_even_def Let_def)
qed

lemma round_half_even_le: "x \<le> of_int n \<Longrightarrow> round_half_even x \<le> n"
proof -
  assume a: "x \<le> of_int n"
  show ?thesis
  proof (cases "x = of_int n")
    case True
    then show ?thesis by (simp add: round_half_even_def Let_def)
  next
    case False
    with a have "x < of_int n" by simp
    then have "\<lfloor>x\<rfloor> < n" by (simp add: floor_less_iff)
    then show ?thesis by (simp add: round_half_even_def Let_def)
  qed
qed

lemma round_half_even_below_half:
  assumes "x < of_int n - 1 / 2"
  shows "round_half_even x \<le> n - 1"
proof -
  have "x < of_int n" using assms by simp
  then have f: "\<lfloor>x\<rfloor> \<le> n - 1" by (simp add: floor_less_iff)
  show ?thesis
  proof (cases "\<lfloor>x\<rfloor> = n - 1")
    case True
    then have "x - of_int \<lfloor>x\<rfloor> < 1 / 2" using assms by simp
    with True show ?thesis by (simp add: round_half_even_def Let_def)
  next
    case False
    with f have "\<lfloor>x\<rfloor> + 1 \<le> n - 1" by simp
    then show ?thesis by (simp add: round_half_even_def Let_def)
  qed
qed

lemma round_half_even_above_half:
  assumes "of_int n - 1 / 2 \<le> x" "even n"
  shows "n \<le> round_half_even x"
proof (cases "of_int n \<le> x")
  case True
  then show ?thesis by (rule round_half_even_ge)
next
  case False
  then have "x < of_int n" by simp
  moreover have "of_int (n - 1) \<le> x" using assms(1) by simp
  ultimately have f: "\<lfloor>x\<rfloor> = n - 1" by (simp add: floor_unique)
  then have o: "odd \<lfloor>x\<rfloor>" using assms(2) by simp
  have "1 / 2 \<le> x - of_int \<lfloor>x\<rfloor>" using assms(1) f by simp
  with o f show ?thesis by (simp add: round_half_even_def Let_def)
qed

lemma round_half_even_zero:
  assumes "0 \<le> x"
  shows "round_half_even x = 0 \<longleftrightarrow> x \<le> 1 / 2"
proof
  assume r: "round_half_even x = 0"
  show "x \<le> 1 / 2"
  proof (rule ccontr)
    assume "\<not> x \<le> 1 / 2"
    then have "of_int 1 - 1 / 2 < x" by simp
    show False
    proof (cases "1 \<le> x")
      case True
      then have "of_int 1 \<le> x" by simp
      from round_half_even_ge[OF this] r show False by simp
    next
      case False
      with assms have "\<lfloor>x\<rfloor> = 0" by (simp add: floor_unique)
      with \<open>\<not> x \<le> 1 / 2\<close> have "round_half_even x = 1"
        by (simp add: round_half_even_def Let_def)
      with r show False by simp
    qed
  qed
next
  assume h: "x \<le> 1 / 2"
  with assms have "\<lfloor>x\<rfloor> = 0" by (simp add: floor_unique)
  with h show "round_half_even x = 0" by (simp add: round_half_even_def Let_def)
qed


lemma ulp_positive: "0 < (2::rat) powi k"
  by (simp add: zero_less_power_int)

lemma powi_join:
  "2 ^ 53 * (2::rat) powi (e - 52) = 2 powi (e + 1)"
  "2 ^ 52 * (2::rat) powi (e - 52) = 2 powi e"
  "2 ^ 53 * (2::rat) powi (k - 53) = 2 powi k"
  "2 ^ 52 * (2::rat) powi (k - 53) = 2 powi (k - 1)"
  "(2::rat) powi (k - 53) / 2 = 2 powi (k - 54)"
  using power_int_add[of "2::rat" "e - 52" 53] power_int_add[of "2::rat" "e - 52" 52]
    power_int_add[of "2::rat" "k - 53" 53] power_int_add[of "2::rat" "k - 53" 52]
    power_int_add[of "2::rat" "k - 54" 1]
  by (simp_all add: add.commute)

lemma of_int_bound:
  "2 ^ n \<le> m \<Longrightarrow> (2::rat) ^ n \<le> of_int m"
  "m \<le> 2 ^ n \<Longrightarrow> of_int m \<le> (2::rat) ^ n"
  "m \<le> 2 ^ n - 1 \<Longrightarrow> of_int m \<le> (2::rat) ^ n - 1"
proof -
  show "2 ^ n \<le> m \<Longrightarrow> (2::rat) ^ n \<le> of_int m"
    using of_int_le_iff[of "2 ^ n" m, where 'a = rat] by simp
  show "m \<le> 2 ^ n \<Longrightarrow> of_int m \<le> (2::rat) ^ n"
    using of_int_le_iff[of m "2 ^ n", where 'a = rat] by simp
  show "m \<le> 2 ^ n - 1 \<Longrightarrow> of_int m \<le> (2::rat) ^ n - 1"
    using of_int_le_iff[of m "2 ^ n - 1", where 'a = rat] by simp
qed

lemma rounded_overflow:
  fixes x u :: rat and e k m :: int
  assumes u: "u = 2 powi (e - 52)" and m: "m = round_half_even (x / u)"
    and b1: "x < 2 powi (e + 1)" and b2: "k - 1 \<le> e \<Longrightarrow> 2 powi e \<le> x"
  shows "2 powi k \<le> of_int m * u \<longleftrightarrow> 2 powi k - 2 powi (k - 54) \<le> x"
proof -
  define s :: rat where "s = 2 powi (k - 53)"
  have s: "0 < s" and up: "0 < u" unfolding s_def u by (rule ulp_positive)+
  have top: "2 powi k = 2 ^ 53 * s" and below: "2 powi (k - 1) = 2 ^ 52 * s"
    and h: "2 powi (k - 54) = s / 2"
    unfolding s_def by (simp_all only: powi_join)
  have t: "2 powi k - 2 powi (k - 54) = (2 ^ 53 - 1 / 2) * s"
    unfolding top h by (simp add: algebra_simps)
  have ue: "2 powi e = 2 ^ 52 * u" "2 powi (e + 1) = 2 ^ 53 * u"
    unfolding u by (simp_all only: powi_join)
  show ?thesis
  proof
    assume "2 powi k - 2 powi (k - 54) \<le> x"
    then have big: "(2 ^ 53 - 1 / 2) * s \<le> x" unfolding t .
    have "2 ^ 52 * s \<le> (2 ^ 53 - 1 / 2) * s" using s by simp
    with big have "2 powi (k - 1) \<le> x" unfolding below by simp
    with b1 have lt: "(2::rat) powi (k - 1) < 2 powi (e + 1)" by simp
    have e: "k - 1 \<le> e"
    proof (rule ccontr)
      assume "\<not> k - 1 \<le> e"
      then have "e + 1 \<le> k - 1" by simp
      then have "(2::rat) powi (e + 1) \<le> 2 powi (k - 1)"
        by (intro power_int_increasing) simp_all
      with lt show False by simp
    qed
    show "2 powi k \<le> of_int m * u"
    proof (cases "e = k - 1")
      case True
      then have us: "u = s" by (simp add: u s_def)
      from big s have "of_int (2 ^ 53) - 1 / 2 \<le> x / s" by (simp add: pos_le_divide_eq)
      then have "2 ^ 53 \<le> m" unfolding m us by (rule round_half_even_above_half) simp
      then have "(2::rat) ^ 53 \<le> of_int m" by (rule of_int_bound)
      then have "2 ^ 53 * s \<le> of_int m * s" using s by simp
      then show ?thesis unfolding top us .
    next
      case False
      with e have e': "k \<le> e" by simp
      from b2[OF e] have "2 ^ 52 * u \<le> x" unfolding ue .
      then have "of_int (2 ^ 52) \<le> x / u" using up by (simp add: pos_le_divide_eq)
      then have "2 ^ 52 \<le> m" unfolding m by (rule round_half_even_ge)
      then have "(2::rat) ^ 52 \<le> of_int m" by (rule of_int_bound)
      then have "2 ^ 52 * u \<le> of_int m * u" using up by simp
      then have "2 powi e \<le> of_int m * u" unfolding ue .
      moreover have "(2::rat) powi k \<le> 2 powi e"
        using e' by (intro power_int_increasing) simp_all
      ultimately show ?thesis by simp
    qed
  next
    assume v: "2 powi k \<le> of_int m * u"
    show "2 powi k - 2 powi (k - 54) \<le> x"
    proof (rule ccontr)
      assume "\<not> 2 powi k - 2 powi (k - 54) \<le> x"
      then have small: "x < (2 ^ 53 - 1 / 2) * s" unfolding t by simp
      have "(2 ^ 53 - 1 / 2) * s < 2 ^ 53 * s" using s by simp
      with small have x: "x < 2 powi k" unfolding top by simp
      have e: "e \<le> k - 1"
      proof (rule ccontr)
        assume "\<not> e \<le> k - 1"
        then have e': "k \<le> e" by simp
        then have "k - 1 \<le> e" by simp
        from b2[OF this] have "2 powi e \<le> x" .
        moreover have "(2::rat) powi k \<le> 2 powi e"
          using e' by (intro power_int_increasing) simp_all
        ultimately show False using x by simp
      qed
      show False
      proof (cases "e = k - 1")
        case True
        then have us: "u = s" by (simp add: u s_def)
        from small s have "x / s < of_int (2 ^ 53) - 1 / 2" by (simp add: pos_divide_less_eq)
        then have "m \<le> 2 ^ 53 - 1" unfolding m us by (rule round_half_even_below_half)
        then have "of_int m \<le> (2::rat) ^ 53 - 1" by (rule of_int_bound)
        then have "of_int m * s \<le> (2 ^ 53 - 1) * s" using s by simp
        also have "\<dots> < 2 ^ 53 * s" using s by simp
        finally show False using v unfolding top us by simp
      next
        case False
        with e have e': "e + 1 \<le> k - 1" by simp
        from b1 have "x < 2 ^ 53 * u" unfolding ue .
        then have "x / u \<le> of_int (2 ^ 53)" using up by (simp add: pos_divide_le_eq)
        then have "m \<le> 2 ^ 53" unfolding m by (rule round_half_even_le)
        then have "of_int m \<le> (2::rat) ^ 53" by (rule of_int_bound)
        then have "of_int m * u \<le> 2 ^ 53 * u" using up by simp
        then have "of_int m * u \<le> 2 powi (e + 1)" unfolding ue .
        also have "\<dots> \<le> 2 powi (k - 1)" using e' by (intro power_int_increasing) simp_all
        also have "\<dots> < 2 powi k" by (intro power_int_strict_increasing) simp_all
        finally show False using v by simp
      qed
    qed
  qed
qed

lemma rounded_zero:
  fixes x u :: rat and e l m :: int
  assumes u: "u = 2 powi (e - 52)" and m: "m = round_half_even (x / u)"
    and x: "0 \<le> x" and b1: "l \<le> e" and b2: "e = l \<or> 2 powi e \<le> x"
  shows "m = 0 \<longleftrightarrow> x \<le> 2 powi (l - 53)"
proof -
  have up: "0 < u" unfolding u by (rule ulp_positive)
  have "0 \<le> x / u" using x up by simp
  note z = round_half_even_zero[OF this]
  have half: "u / 2 = 2 powi (e - 53)"
    using power_int_add[of "2::rat" "e - 53" 1] by (simp add: u)
  have m0: "m = 0 \<longleftrightarrow> x \<le> 2 powi (e - 53)"
    unfolding m z half[symmetric] using up by (simp add: pos_divide_le_eq)
  show ?thesis
  proof (cases "e = l")
    case True
    with m0 show ?thesis by simp
  next
    case False
    with b1 b2 have lt: "l < e" and ge: "2 powi e \<le> x" by simp_all
    have "(2::rat) powi (e - 53) < 2 powi e"
      by (intro power_int_strict_increasing) simp_all
    with ge have n1: "\<not> x \<le> 2 powi (e - 53)" by simp
    have "(2::rat) powi (l - 53) < 2 powi e"
      using lt by (intro power_int_strict_increasing) simp_all
    with ge have n2: "\<not> x \<le> 2 powi (l - 53)" by simp
    from m0 n1 n2 show ?thesis by simp
  qed
qed

lemma number_value_not_negative:
  assumes "0 \<le> x"
  shows "number_value x = PositiveInfinity \<or> (\<exists>v. number_value x = Finite v \<and> 0 \<le> v)"
proof -
  define u :: rat where "u = 2 powi (binade x - 52)"
  have u: "0 < u" unfolding u_def by (rule ulp_positive)
  with assms have "of_int 0 \<le> x / u" by simp
  then have "0 \<le> round_half_even (x / u)" by (rule round_half_even_ge)
  with u have "0 \<le> of_int (round_half_even (x / u)) * u" by simp
  then show ?thesis unfolding number_value_def Let_def u_def by simp
qed

lemma number_value_overflow:
  "number_value x = PositiveInfinity \<longleftrightarrow> 2 ^ 1024 - 2 ^ 970 \<le> x"
proof -
  define u :: rat where "u = 2 powi (binade x - 52)"
  define m where "m = round_half_even (x / u)"
  have c: "(2::rat) ^ 1024 = 2 powi 1024" "(2::rat) ^ 970 = 2 powi (1024 - 54)" by simp_all
  have nv: "number_value x = PositiveInfinity \<longleftrightarrow> 2 powi 1024 \<le> of_int m * u"
    unfolding number_value_def Let_def u_def[symmetric] m_def[symmetric] c by simp
  have b: "x < 2 powi (binade x + 1)" "1024 - 1 \<le> binade x \<Longrightarrow> 2 powi binade x \<le> x"
    using binade_bounds(2,3)[of x] by auto
  show ?thesis
    unfolding nv c by (rule rounded_overflow[OF u_def m_def b])
qed

lemma number_value_zero:
  assumes "0 \<le> x"
  shows "number_value x = Finite 0 \<longleftrightarrow> x \<le> 1 / 2 ^ 1075"
proof -
  define u :: rat where "u = 2 powi (binade x - 52)"
  define m where "m = round_half_even (x / u)"
  have up: "0 < u" unfolding u_def by (rule ulp_positive)
  have c: "1 / (2::rat) ^ 1075 = 2 powi (- 1022 - 53)" by simp
  have "number_value x = Finite 0 \<longleftrightarrow> \<not> 2 ^ 1024 \<le> of_int m * u \<and> of_int m * u = 0"
    unfolding number_value_def Let_def u_def[symmetric] m_def[symmetric] by simp
  also have "\<dots> \<longleftrightarrow> m = 0" using up by auto
  finally have nv: "number_value x = Finite 0 \<longleftrightarrow> m = 0" .
  show ?thesis
    unfolding nv c by (rule rounded_zero[OF u_def m_def assms binade_bounds(1,3)])
qed

lemma round_half_even_near: "\<bar>of_int (round_half_even y) - y\<bar> \<le> 1 / 2"
proof -
  have "of_int \<lfloor>y\<rfloor> \<le> y" "y < of_int \<lfloor>y\<rfloor> + 1" by linarith+
  then show ?thesis by (auto simp: round_half_even_def Let_def)
qed

lemma number_value_near:
  assumes "0 \<le> x" "number_value x = Finite v"
  shows "\<bar>v - x\<bar> \<le> max (x / 2 ^ 53) (1 / 2 ^ 1075)"
proof -
  define e where "e = binade x"
  define u :: rat where "u = 2 powi (e - 52)"
  define m where "m = round_half_even (x / u)"
  have up: "0 < u" unfolding u_def by (rule ulp_positive)
  from assms(2) have v: "v = of_int m * u"
    unfolding number_value_def Let_def e_def[symmetric] u_def[symmetric] m_def[symmetric]
    by (simp split: if_splits)
  have "v - x = (of_int m - x / u) * u" using up by (simp add: v algebra_simps)
  then have "\<bar>v - x\<bar> = \<bar>of_int m - x / u\<bar> * u" using up by (simp add: abs_mult)
  also have "\<dots> \<le> 1 / 2 * u"
    using round_half_even_near[of "x / u"] up unfolding m_def by (intro mult_right_mono) simp_all
  also have "1 / 2 * u = 2 powi (e - 53)"
    using power_int_add[of "2::rat" "e - 53" 1] by (simp add: u_def)
  finally have near: "\<bar>v - x\<bar> \<le> 2 powi (e - 53)" .
  have b: "e = - 1022 \<or> 2 powi e \<le> x" using binade_bounds(3)[of x] by (simp add: e_def)
  show ?thesis
  proof (cases "e = - 1022")
    case True
    have "(2::rat) powi (- 1022 - 53) = 1 / 2 ^ 1075" by simp
    with near True have "\<bar>v - x\<bar> \<le> 1 / 2 ^ 1075" by simp
    then show ?thesis by (rule max.coboundedI2)
  next
    case False
    with b have "2 powi e \<le> x" by simp
    moreover have "(2::rat) powi e = 2 powi (e - 53) * 2 ^ 53"
      using power_int_add[of "2::rat" "e - 53" 53] by simp
    ultimately have "2 powi (e - 53) \<le> x / 2 ^ 53" by (simp add: pos_le_divide_eq)
    with near have "\<bar>v - x\<bar> \<le> x / 2 ^ 53" by (rule order_trans)
    then show ?thesis by (rule max.coboundedI1)
  qed
qed

lemma digit_facts:
  "is_digit c \<Longrightarrow> \<not> is_space c"
  "is_digit c \<Longrightarrow> c \<noteq> CHR ''+''"
  "is_digit c \<Longrightarrow> c \<noteq> CHR ''-''"
  "is_digit c \<Longrightarrow> c \<noteq> CHR ''I''"
  "\<not> is_digit (CHR ''.'')"
  by (auto simp: is_digit_def is_space_def)

lemma parseFloat_numeral:
  assumes ds: "ds \<noteq> []" "list_all is_digit ds" and fs: "list_all is_digit fs"
  shows "parseFloat (ds @ (if fs = [] then [] else CHR ''.'' # fs))
     = number_value (decimal_value ds fs)"
proof -
  define fraction where "fraction = (if fs = [] then [] else CHR ''.'' # fs)"
  define s where "s = ds @ fraction"
  obtain c r where c: "ds = c # r" using ds(1) by (cases ds) auto
  with ds(2) have d: "is_digit c" by simp
  have sc: "s = c # r @ fraction" by (simp add: s_def c)
  have trim: "dropWhile is_space s = s"
    using digit_facts(1)[OF d] by (simp add: sc)
  have inf: "take 8 s \<noteq> ''Infinity''"
    using digit_facts(4)[OF d] by (auto simp: sc)
  have stop: "fraction = [] \<or> \<not> is_digit (hd fraction)"
    by (simp add: fraction_def digit_facts(5))
  have ip: "takeWhile is_digit s = ds"
    "dropWhile is_digit s = fraction"
    unfolding s_def using takeWhile_stop[OF ds(2) stop] by simp_all
  have fp: "takeWhile is_digit fs = fs" "dropWhile is_digit fs = []"
    using takeWhile_stop[OF fs, of "[]"] by simp_all
  have unf: "StrUnsignedDecimalLiteral s =
     (let dot = (fraction \<noteq> [] \<and> hd fraction = CHR ''.'');
          fp = (if dot then takeWhile is_digit (tl fraction) else []);
          r' = (if dot then dropWhile is_digit (tl fraction) else fraction)
      in if ds = [] \<and> fp = [] then NaN
         else number_value (of_nat (digits_val (ds @ fp))
                * 10 powi (ExponentPart r' - int (length fp))))"
    by (simp only: StrUnsignedDecimalLiteral_def inf ip if_False Let_def)
  have lit: "StrUnsignedDecimalLiteral s = number_value (decimal_value ds fs)"
  proof (cases "fs = []")
    case True
    then have "fraction = []" by (simp add: fraction_def)
    with ds(1) True show ?thesis
      unfolding unf by (simp add: ExponentPart_def decimal_value_def)
  next
    case False
    then have f: "fraction = CHR ''.'' # fs" by (simp add: fraction_def)
    have p: "(10::rat) powi (- int (length fs)) = 1 / 10 ^ length fs"
      by (simp add: power_int_minus divide_inverse)
    from ds(1) False show ?thesis
      unfolding unf by (simp add: f fp ExponentPart_def decimal_value_def p Let_def)
  qed
  have "parseFloat s = StrUnsignedDecimalLiteral s"
    unfolding parseFloat_def trim using digit_facts(2,3)[OF d] by (simp add: sc)
  with lit show ?thesis by (simp add: s_def fraction_def)
qed

lemma digits_val_append:
  "digits_val (xs @ ys) = foldl (\<lambda>a c. 10 * a + digit_val c) (digits_val xs) ys"
  by (simp add: digits_val_def)

lemma digits_val_zeros: "digits_val (ds @ replicate n (CHR ''0'')) = digits_val ds * 10 ^ n"
proof (induction n)
  case 0
  then show ?case by simp
next
  case (Suc n)
  have "digits_val (ds @ replicate (Suc n) (CHR ''0''))
      = digits_val ((ds @ replicate n (CHR ''0'')) @ ''0'')"
    by (simp add: replicate_append_same)
  also have "\<dots> = 10 * digits_val (ds @ replicate n (CHR ''0''))"
    unfolding digits_val_append[of "ds @ replicate n (CHR ''0'')"] by (simp add: digit_val_def)
  finally show ?case using Suc by simp
qed

text \<open>
  Some values: the numeral of the example, zero, the first integer that binary64 cannot
  hold, and a numeral beyond the binary64 range.
\<close>

lemma number_value_5: "number_value 5 = Finite 5"
  by (simp add: number_value_def binade_def binade_up.simps round_half_even_def Let_def)

lemma floor_half_of_odd: "\<lfloor>9007199254740993 / (2::rat)\<rfloor> = 4503599627370496"
  by (rule floor_unique) simp_all

lemma number_value_rounds: "number_value 9007199254740993 = Finite 9007199254740992"
  by (simp add: number_value_def binade_def binade_up.simps round_half_even_def Let_def
      floor_half_of_odd)

lemma parseFloat_5: "parseFloat ''5'' = Finite 5"
  using parseFloat_numeral[of "''5''" "[]"]
  by (simp add: is_digit_def decimal_value_def digits_val_def digit_val_def number_value_5)

lemma parseFloat_0: "parseFloat ''0'' = Finite 0"
  using parseFloat_numeral[of "''0''" "[]"]
  by (simp add: is_digit_def decimal_value_def digits_val_def digit_val_def number_value_zero)

lemma parseFloat_rounds: "parseFloat ''9007199254740993'' = Finite 9007199254740992"
  using parseFloat_numeral[of "''9007199254740993''" "[]"]
  by (simp add: is_digit_def decimal_value_def digits_val_def digit_val_def number_value_rounds)

lemma parseFloat_huge:
  "parseFloat (CHR ''2'' # replicate 308 (CHR ''0'')) = PositiveInfinity"
proof -
  have "parseFloat (CHR ''2'' # replicate 308 (CHR ''0''))
     = number_value (decimal_value (''2'' @ replicate 308 (CHR ''0'')) [])"
    using parseFloat_numeral[of "''2'' @ replicate 308 (CHR ''0'')" "[]"]
    by (simp add: is_digit_def list_all_iff)
  moreover have "decimal_value (''2'' @ replicate 308 (CHR ''0'')) [] = 2 * 10 ^ 308"
    unfolding decimal_value_def append_Nil2 digits_val_zeros
    by (simp add: digits_val_def digit_val_def)
  ultimately show ?thesis by (simp add: number_value_overflow)
qed

text \<open>Strings that are no numeral of the command pattern.\<close>

lemma parseFloat_other:
  "parseFloat ''-5'' = Finite (- 5)" "parseFloat ''abc'' = NaN" "parseFloat ''1e3'' = Finite 1000"
proof -
  have m: "StrUnsignedDecimalLiteral ''5'' = Finite 5"
    using parseFloat_5 by (simp add: parseFloat_def is_space_def)
  show "parseFloat ''-5'' = Finite (- 5)"
    by (simp add: parseFloat_def is_space_def m negate_def)
  show "parseFloat ''abc'' = NaN"
    by (simp add: parseFloat_def is_space_def StrUnsignedDecimalLiteral_def is_digit_def)
  have "number_value 1000 = Finite 1000"
    by (simp add: number_value_def binade_def binade_up.simps round_half_even_def Let_def)
  then show "parseFloat ''1e3'' = Finite 1000"
    by (simp add: parseFloat_def is_space_def StrUnsignedDecimalLiteral_def is_digit_def
        ExponentPart_def digits_val_def digit_val_def)
qed

text \<open>The example comments, parsed.\<close>

lemma example_regex_match:
  "regex_match ''/bounty 5 So11111111111111111111111111111111111111112''
     = Some (''5'', ''So11111111111111111111111111111111111111112'')"
  by (simp add: match_at_def is_space_def is_digit_def is_word_def is_lower_letter_def
      is_upper_letter_def lower_char_def Let_def)

lemma lower_alice: "toLowerCase ''Alice'' = ''alice''" "toLowerCase ''alice'' = ''alice''"
  "toLowerCase ''mallory'' = ''mallory''"
  by code_simp+

lemma example_comment_parses:
  "AUTHORIZED_USERS env = [''Alice'']
   \<Longrightarrow> parseBountyCommand env example_comment = Some example_command"
  by (simp add: parseBountyCommand_def example_comment_def example_regex_match isAuthorized_def
      lower_alice parseFloat_5 example_command_def del: regex_match.simps)

lemma unauthorized_comment_dropped:
  "AUTHORIZED_USERS env = [''Alice'']
   \<Longrightarrow> parseBountyCommand env unauthorized_comment = None"
  by (simp add: parseBountyCommand_def unauthorized_comment_def example_comment_def
      example_regex_match isAuthorized_def lower_alice del: regex_match.simps)

lemma example_repo_name: "parseRepoFullName ''acme/widget'' = (Some ''acme'', Some ''widget'')"
  by (simp add: parseRepoFullName_def at_index_def Let_def)

lemma tick_single_repository:
  assumes "REPOSITORIES env = [r]"
    and "listCommentsForRepo env (calls w ListComments) (fst (parseRepoFullName r))
           (snd (parseRepoFullName r)) = Inr cs"
  shows "checkForBountyCommands env w = process_comments env cs (tick ListComments w)"
proof -
  obtain w' where "process_comments env cs (tick ListComments w) = (Inr (), w')"
    using process_comments_poll_step by blast
  with assms show ?thesis
    by (simp add: checkForBountyCommands_def check_repositories_Cons_eq
        del: check_repositories.simps(2))
qed

lemma process_comments_command:
  assumes "comment_id c \<notin> processedComments w" "parseBountyCommand env c = Some cmd"
  shows "process_comments env (c # cs) w =
     process_comments env cs
       (snd (processBountyCommand env cmd
          (w\<lparr>processedComments := insert (comment_id c) (processedComments w),
             invoked := invoked w @ [(comment_id c, cmd)]\<rparr>)))"
proof -
  let ?w2 = "w\<lparr>processedComments := insert (comment_id c) (processedComments w),
             invoked := invoked w @ [(comment_id c, cmd)]\<rparr>"
  obtain w3 where "processBountyCommand env cmd ?w2 = (Inr (), w3)"
    using processBountyCommand_returns[of env cmd ?w2] by (metis prod.collapse)
  with assms show ?thesis by (simp add: Let_def)
qed

lemma process_comments_seen:
  assumes "comment_id c \<in> processedComments w"
  shows "process_comments env (c # cs) w = process_comments env cs w"
  using assms by simp

lemma process_comments_no_command:
  assumes "comment_id c \<notin> processedComments w" "parseBountyCommand env c = None"
  shows "process_comments env (c # cs) w =
     process_comments env cs
       (w\<lparr>processedComments := insert (comment_id c) (processedComments w)\<rparr>)"
  using assms by (simp add: Let_def)

lemma duplicate_comment_once:
  assumes same: "comment_id c' = comment_id c"
    and new: "comment_id c \<notin> processedComments w"
    and parse: "parseBountyCommand env c = Some cmd"
  shows "process_comments env [c, c'] w =
     (Inr (), snd (processBountyCommand env cmd
          (w\<lparr>processedComments := insert (comment_id c) (processedComments w),
             invoked := invoked w @ [(comment_id c, cmd)]\<rparr>)))"
proof -
  let ?w2 = "w\<lparr>processedComments := insert (comment_id c) (processedComments w),
             invoked := invoked w @ [(comment_id c, cmd)]\<rparr>"
  have "comment_id c' \<in> processedComments (snd (processBountyCommand env cmd ?w2))"
    using same by (simp add: processBountyCommand_frame)
  then show ?thesis
    using process_comments_command[OF new parse, of "[c']"]
    by (simp only: process_comments_seen process_comments.simps(1))
qed

lemma duplicate_comment_tick:
  assumes repos: "REPOSITORIES env = [r]"
    and listed: "listCommentsForRepo env (calls w ListComments) (fst (parseRepoFullName r))
           (snd (parseRepoFullName r)) = Inr [c, c']"
    and same: "comment_id c' = comment_id c"
    and new: "comment_id c \<notin> processedComments w"
    and parse: "parseBountyCommand env c = Some cmd"
  shows "checkForBountyCommands env w =
     (Inr (), snd (processBountyCommand env cmd
          ((tick ListComments w)
             \<lparr>processedComments := insert (comment_id c) (processedComments w),
              invoked := invoked w @ [(comment_id c, cmd)]\<rparr>)))"
proof -
  have n: "comment_id c \<notin> processedComments (tick ListComments w)"
    using new by simp
  show ?thesis
    using duplicate_comment_once[OF same n parse]
    by (simp add: tick_single_repository[OF repos listed])
qed


text \<open>The matcher and the pattern it implements.\<close>

lemma space_not_digit: "is_space c \<Longrightarrow> \<not> is_digit c"
  and space_not_word: "is_space c \<Longrightarrow> \<not> is_word c"
  and space_not_dot: "is_space c \<Longrightarrow> c \<noteq> CHR ''.''"
  and dot_not_digit: "\<not> is_digit (CHR ''.'')"
  by (auto simp: is_space_def is_digit_def is_word_def is_lower_letter_def is_upper_letter_def)

lemma match_at_sound:
  assumes "match_at s = Some (g1, g2)"
  obtains kw ws1 ds fraction ws2 post where
    "s = kw @ ws1 @ ds @ fraction @ ws2 @ g2 @ post"
    "map lower_char kw = ''/bounty''"
    "ws1 \<noteq> []" "list_all is_space ws1"
    "ds \<noteq> []" "list_all is_digit ds"
    "fraction = [] \<or> (\<exists>fs. fraction = CHR ''.'' # fs \<and> fs \<noteq> [] \<and> list_all is_digit fs)"
    "ws2 \<noteq> []" "list_all is_space ws2"
    "32 \<le> length g2" "length g2 \<le> 44" "list_all is_word g2"
    "g1 = ds @ fraction"
proof -
  define kw where "kw = take 7 s"
  define r1 where "r1 = drop 7 s"
  define ws1 where "ws1 = takeWhile is_space r1"
  define r2 where "r2 = dropWhile is_space r1"
  define ds where "ds = takeWhile is_digit r2"
  define r3 where "r3 = dropWhile is_digit r2"
  define fs where "fs = (case r3 of [] \<Rightarrow> []
                         | c # r \<Rightarrow> if c = CHR ''.'' then takeWhile is_digit r else [])"
  define fraction where "fraction = (if fs = [] then [] else CHR ''.'' # fs)"
  define r4 where "r4 = (if fs = [] then r3 else dropWhile is_digit (tl r3))"
  define ws2 where "ws2 = takeWhile is_space r4"
  define r5 where "r5 = dropWhile is_space r4"
  define addr where "addr = takeWhile is_word r5"
  define post where "post = drop 44 addr @ dropWhile is_word r5"
  have unf: "match_at s =
     (if map lower_char kw \<noteq> ''/bounty'' then None
      else if ws1 = [] then None
      else if ds = [] then None
      else if ws2 = [] then None
      else if length addr < 32 then None
      else Some (if fs = [] then ds else ds @ CHR ''.'' # fs, take 44 addr))"
    unfolding match_at_def kw_def r1_def ws1_def r2_def ds_def r3_def fs_def r4_def
      ws2_def r5_def addr_def Let_def
    by (rule refl)
  have kw: "map lower_char kw = ''/bounty''"
  proof (rule ccontr)
    assume "map lower_char kw \<noteq> ''/bounty''"
    then have "match_at s = None" by (simp only: unf simp_thms if_True if_False)
    with assms show False by simp
  qed
  have w1: "ws1 \<noteq> []"
  proof
    assume "ws1 = []"
    with kw have "match_at s = None" by (simp only: unf simp_thms if_True if_False)
    with assms show False by simp
  qed
  have d: "ds \<noteq> []"
  proof
    assume "ds = []"
    with kw w1 have "match_at s = None" by (simp only: unf simp_thms if_True if_False)
    with assms show False by simp
  qed
  have w2: "ws2 \<noteq> []"
  proof
    assume "ws2 = []"
    with kw w1 d have "match_at s = None" by (simp only: unf simp_thms if_True if_False)
    with assms show False by simp
  qed
  have a: "32 \<le> length addr"
  proof (rule ccontr)
    assume "\<not> 32 \<le> length addr"
    then have "length addr < 32" by simp
    with kw w1 d w2 have "match_at s = None" by (simp only: unf simp_thms if_True if_False)
    with assms show False by simp
  qed
  then have na: "\<not> length addr < 32" by simp
  have "match_at s = Some (if fs = [] then ds else ds @ CHR ''.'' # fs, take 44 addr)"
    using kw w1 d w2 na by (simp only: unf simp_thms if_True if_False)
  with assms have g1: "g1 = ds @ fraction" and g2: "g2 = take 44 addr"
    by (auto simp: fraction_def split: if_splits)
  have s: "s = kw @ r1" by (simp add: kw_def r1_def)
  have e1: "r1 = ws1 @ r2" by (simp add: ws1_def r2_def)
  have e2: "r2 = ds @ r3" by (simp add: ds_def r3_def)
  have e3: "r3 = fraction @ r4"
  proof (cases "fs = []")
    case True
    then show ?thesis by (simp add: fraction_def r4_def)
  next
    case False
    then obtain r where r: "r3 = CHR ''.'' # r" "fs = takeWhile is_digit r"
      by (auto simp: fs_def split: list.splits if_splits)
    with False show ?thesis by (simp add: fraction_def r4_def)
  qed
  have f: "fraction = [] \<or> (\<exists>fs. fraction = CHR ''.'' # fs \<and> fs \<noteq> [] \<and> list_all is_digit fs)"
  proof (cases "fs = []")
    case True
    then show ?thesis by (simp add: fraction_def)
  next
    case False
    then have "list_all is_digit fs"
      by (auto simp: fs_def list_all_takeWhile split: list.splits if_splits)
    with False show ?thesis by (simp add: fraction_def)
  qed
  have e4: "r4 = ws2 @ r5" by (simp add: ws2_def r5_def)
  have e5: "r5 = g2 @ post"
    by (simp only: g2 post_def append_assoc[symmetric] append_take_drop_id addr_def
        takeWhile_dropWhile_id)
  have "list_all is_word addr" by (simp add: addr_def list_all_takeWhile)
  then have la: "list_all is_word g2"
    unfolding g2 by (auto simp: list_all_iff dest: in_set_takeD)
  have l1: "list_all is_space ws1" and l2: "list_all is_space ws2" and l3: "list_all is_digit ds"
    by (simp_all add: ws1_def ws2_def ds_def list_all_takeWhile)
  have whole: "s = kw @ ws1 @ ds @ fraction @ ws2 @ g2 @ post"
    by (simp only: s e1 e2 e3 e4 e5)
  have len: "32 \<le> length g2" "length g2 \<le> 44" using a by (simp_all add: g2)
  show thesis
    by (rule that[OF whole kw w1 l1 d l3 f w2 l2 len la g1])
qed

lemma regex_match_sound:
  "regex_match s = Some m \<Longrightarrow> \<exists>pre rest. s = pre @ rest \<and> match_at rest = Some m"
proof (induction s)
  case Nil
  then show ?case by simp
next
  case (Cons c s)
  show ?case
  proof (cases "match_at (c # s)")
    case (Some m')
    with Cons.prems have "match_at (c # s) = Some m" by simp
    then show ?thesis by (intro exI[of _ "[]"] exI[of _ "c # s"]) simp
  next
    case None
    with Cons.prems have "regex_match s = Some m" by simp
    from Cons.IH[OF this] obtain pre rest where "s = pre @ rest" "match_at rest = Some m"
      by blast
    then show ?thesis by (intro exI[of _ "c # pre"] exI[of _ rest]) simp
  qed
qed

lemma regex_match_pattern:
  assumes "regex_match s = Some (g1, g2)"
  shows "command_pattern s"
proof -
  from regex_match_sound[OF assms] obtain pre rest where
    s: "s = pre @ rest" and m: "match_at rest = Some (g1, g2)" by blast
  obtain kw ws1 ds fraction ws2 post where
    h: "rest = kw @ ws1 @ ds @ fraction @ ws2 @ g2 @ post"
    "map lower_char kw = ''/bounty''" "ws1 \<noteq> []" "list_all is_space ws1"
    "ds \<noteq> []" "list_all is_digit ds"
    "fraction = [] \<or> (\<exists>fs. fraction = CHR ''.'' # fs \<and> fs \<noteq> [] \<and> list_all is_digit fs)"
    "ws2 \<noteq> []" "list_all is_space ws2" "32 \<le> length g2" "length g2 \<le> 44"
    "list_all is_word g2"
    by (rule match_at_sound[OF m])
  have w: "s = pre @ kw @ ws1 @ ds @ fraction @ ws2 @ g2 @ post" using s h(1) by simp
  show ?thesis
    unfolding command_pattern_def
    apply (rule exI[of _ pre], rule exI[of _ kw], rule exI[of _ ws1], rule exI[of _ ds],
        rule exI[of _ fraction], rule exI[of _ ws2], rule exI[of _ g2], rule exI[of _ post])
    using w h(2-) by (intro conjI)
qed

lemma match_at_staged:
  assumes "take 7 s = kw" "drop 7 s = r1"
    and "takeWhile is_space r1 = ws1" "dropWhile is_space r1 = r2"
    and "takeWhile is_digit r2 = ds" "dropWhile is_digit r2 = r3"
    and "(if (case r3 of [] \<Rightarrow> []
               | c # r \<Rightarrow> if c = CHR ''.'' then takeWhile is_digit r else []) = []
          then r3 else dropWhile is_digit (tl r3)) = r4"
    and "takeWhile is_space r4 = ws2" "dropWhile is_space r4 = r5"
    and "takeWhile is_word r5 = addr"
  shows "match_at s =
     (if map lower_char kw \<noteq> ''/bounty'' then None
      else if ws1 = [] then None
      else if ds = [] then None
      else if ws2 = [] then None
      else if length addr < 32 then None
      else Some (if (case r3 of [] \<Rightarrow> []
                      | c # r \<Rightarrow> if c = CHR ''.'' then takeWhile is_digit r else []) = []
                 then ds
                 else ds @ CHR ''.'' #
                   (case r3 of [] \<Rightarrow> []
                    | c # r \<Rightarrow> if c = CHR ''.'' then takeWhile is_digit r else []),
                 take 44 addr))"
  unfolding assms[symmetric] match_at_def Let_def
  by (rule refl)

lemma match_at_result:
  assumes kw: "map lower_char kw = ''/bounty''"
    and w1: "ws1 \<noteq> []" "list_all is_space ws1"
    and d: "ds \<noteq> []" "list_all is_digit ds"
    and f: "fraction = [] \<or> (\<exists>fs. fraction = CHR ''.'' # fs \<and> fs \<noteq> [] \<and> list_all is_digit fs)"
    and w2: "ws2 \<noteq> []" "list_all is_space ws2"
    and a: "32 \<le> length addr" "list_all is_word addr"
  shows "match_at (kw @ ws1 @ ds @ fraction @ ws2 @ addr @ post)
     = Some (ds @ fraction, take 44 (addr @ takeWhile is_word post))"
proof -
  define R5 where "R5 = addr @ post"
  define R4 where "R4 = ws2 @ R5"
  define R2 where "R2 = fraction @ R4"
  define R1 where "R1 = ds @ R2"
  have lk: "length kw = 7" using arg_cong[OF kw, of length] by simp
  have whole: "kw @ ws1 @ ds @ fraction @ ws2 @ addr @ post = kw @ ws1 @ R1"
    by (simp add: R1_def R2_def R4_def R5_def)
  have A1: "take 7 (kw @ ws1 @ R1) = kw" "drop 7 (kw @ ws1 @ R1) = ws1 @ R1"
    using lk by simp_all
  have "is_digit (hd ds)" using d by (cases ds) auto
  then have h1: "R1 = [] \<or> \<not> is_space (hd R1)"
    using d(1) space_not_digit by (auto simp: R1_def)
  have A2: "takeWhile is_space (ws1 @ R1) = ws1" "dropWhile is_space (ws1 @ R1) = R1"
    using takeWhile_stop[OF w1(2) h1] by simp_all
  have "is_space (hd ws2)" using w2 by (cases ws2) auto
  then have h4: "R4 \<noteq> []" "\<not> is_digit (hd R4)" "hd R4 \<noteq> CHR ''.''"
    using w2(1) space_not_digit space_not_dot by (auto simp: R4_def)
  have h2: "R2 = [] \<or> \<not> is_digit (hd R2)"
    using f h4 dot_not_digit by (auto simp: R2_def)
  have A3: "takeWhile is_digit R1 = ds" "dropWhile is_digit R1 = R2"
    unfolding R1_def using takeWhile_stop[OF d(2) h2] by simp_all
  have B: "(if (case R2 of [] \<Rightarrow> [] | c # r \<Rightarrow> if c = CHR ''.'' then takeWhile is_digit r else [])
              = [] then R2 else dropWhile is_digit (tl R2)) = R4"
    and N: "(if (case R2 of [] \<Rightarrow> [] | c # r \<Rightarrow> if c = CHR ''.'' then takeWhile is_digit r else [])
              = [] then ds
            else ds @ CHR ''.'' #
              (case R2 of [] \<Rightarrow> [] | c # r \<Rightarrow> if c = CHR ''.'' then takeWhile is_digit r else []))
           = ds @ fraction"
  proof -
    have "(if (case R2 of [] \<Rightarrow> [] | c # r \<Rightarrow> if c = CHR ''.'' then takeWhile is_digit r else [])
              = [] then R2 else dropWhile is_digit (tl R2)) = R4
        \<and> (if (case R2 of [] \<Rightarrow> [] | c # r \<Rightarrow> if c = CHR ''.'' then takeWhile is_digit r else [])
              = [] then ds
            else ds @ CHR ''.'' #
              (case R2 of [] \<Rightarrow> [] | c # r \<Rightarrow> if c = CHR ''.'' then takeWhile is_digit r else []))
           = ds @ fraction"
    proof (cases "fraction = []")
      case True
      then have "R2 = R4" by (simp add: R2_def)
      with h4 True show ?thesis by (cases R4) auto
    next
      case False
      with f obtain fs where fs: "fraction = CHR ''.'' # fs" "fs \<noteq> []" "list_all is_digit fs"
        by blast
      have "takeWhile is_digit (fs @ R4) = fs" "dropWhile is_digit (fs @ R4) = R4"
        using takeWhile_stop[OF fs(3), of R4] h4 by simp_all
      with fs show ?thesis by (simp add: R2_def)
    qed
    then show "(if (case R2 of [] \<Rightarrow> [] | c # r \<Rightarrow> if c = CHR ''.'' then takeWhile is_digit r else [])
              = [] then R2 else dropWhile is_digit (tl R2)) = R4"
      and "(if (case R2 of [] \<Rightarrow> [] | c # r \<Rightarrow> if c = CHR ''.'' then takeWhile is_digit r else [])
              = [] then ds
            else ds @ CHR ''.'' #
              (case R2 of [] \<Rightarrow> [] | c # r \<Rightarrow> if c = CHR ''.'' then takeWhile is_digit r else []))
           = ds @ fraction" by simp_all
  qed
  have "is_word (hd addr)" "addr \<noteq> []" using a by (cases addr; auto)+
  then have h5: "R5 = [] \<or> \<not> is_space (hd R5)"
    using space_not_word by (auto simp: R5_def)
  have A5: "takeWhile is_space R4 = ws2" "dropWhile is_space R4 = R5"
    unfolding R4_def using takeWhile_stop[OF w2(2) h5] by simp_all
  have A7: "takeWhile is_word R5 = addr @ takeWhile is_word post"
    unfolding R5_def using a(2) by (intro takeWhile_append2) (simp add: list_all_iff)
  then have A6: "\<not> length (takeWhile is_word R5) < 32" using a(1) by simp
  show ?thesis
    unfolding whole match_at_staged[OF A1 A2 A3 B A5 refl] N
    using kw w1(1) d(1) w2(1) A6 by (simp add: A7)
qed

lemma match_at_complete:
  assumes kw: "map lower_char kw = ''/bounty''"
    and w1: "ws1 \<noteq> []" "list_all is_space ws1"
    and d: "ds \<noteq> []" "list_all is_digit ds"
    and f: "fraction = [] \<or> (\<exists>fs. fraction = CHR ''.'' # fs \<and> fs \<noteq> [] \<and> list_all is_digit fs)"
    and w2: "ws2 \<noteq> []" "list_all is_space ws2"
    and a: "32 \<le> length addr" "list_all is_word addr"
  shows "match_at (kw @ ws1 @ ds @ fraction @ ws2 @ addr @ post) \<noteq> None"
  using match_at_result[OF assms, of post] by simp

lemma huge_regex_match:
  "regex_match (body huge_comment)
     = Some (CHR ''2'' # replicate 308 (CHR ''0''),
             ''So11111111111111111111111111111111111111112'')"
proof -
  have k: "map lower_char ''/bounty'' = ''/bounty''"
    by (simp add: lower_char_def)
  have d: "list_all is_digit (CHR ''2'' # replicate 308 (CHR ''0''))"
    by (simp add: is_digit_def list_all_iff)
  have a: "list_all is_word ''So11111111111111111111111111111111111111112''"
    by (simp add: is_word_def is_lower_letter_def is_upper_letter_def is_digit_def)
  have "match_at (''/bounty'' @ '' '' @ (CHR ''2'' # replicate 308 (CHR ''0'')) @ [] @ '' ''
          @ ''So11111111111111111111111111111111111111112'' @ [])
     = Some ((CHR ''2'' # replicate 308 (CHR ''0'')) @ [],
             take 44 (''So11111111111111111111111111111111111111112'' @ takeWhile is_word []))"
    by (rule match_at_result[OF k _ _ _ d _ _ _ _ a]) (simp_all add: is_space_def)
  then have "match_at (CHR ''/'' # ''bounty '' @ CHR ''2'' # replicate 308 (CHR ''0'')
          @ '' So11111111111111111111111111111111111111112'')
     = Some (CHR ''2'' # replicate 308 (CHR ''0''),
             ''So11111111111111111111111111111111111111112'')"
    by simp
  then show ?thesis
    by (simp add: huge_comment_def)
qed

lemma regex_match_complete:
  assumes "match_at rest \<noteq> None"
  shows "regex_match (pre @ rest) \<noteq> None"
proof (induction pre)
  case Nil
  from assms show ?case by (cases rest) auto
next
  case (Cons c pre)
  then show ?case by (auto split: option.splits)
qed

lemma regex_match_iff_pattern: "regex_match s \<noteq> None \<longleftrightarrow> command_pattern s"
proof
  assume "regex_match s \<noteq> None"
  then obtain g1 g2 where "regex_match s = Some (g1, g2)" by auto
  then show "command_pattern s" by (rule regex_match_pattern)
next
  assume "command_pattern s"
  then obtain pre kw ws1 ds fraction ws2 addr post where
    h: "s = pre @ kw @ ws1 @ ds @ fraction @ ws2 @ addr @ post"
    "map lower_char kw = ''/bounty''" "ws1 \<noteq> []" "list_all is_space ws1"
    "ds \<noteq> []" "list_all is_digit ds"
    "fraction = [] \<or> (\<exists>fs. fraction = CHR ''.'' # fs \<and> fs \<noteq> [] \<and> list_all is_digit fs)"
    "ws2 \<noteq> []" "list_all is_space ws2" "32 \<le> length addr" "length addr \<le> 44"
    "list_all is_word addr"
    unfolding command_pattern_def by (elim exE conjE)
  from match_at_complete[OF h(2-10) h(12), of post]
  show "regex_match s \<noteq> None" unfolding h(1) by (rule regex_match_complete)
qed

lemma spec_grammar_needs:
  assumes "spec_command_grammar s"
  shows "CHR ''b'' \<in> set s \<and> CHR '' '' \<in> set s \<and> 32 \<le> length (filter is_alphanumeric s)"
proof -
  from assms obtain pre sp1 ds fraction sp2 addr post where
    s: "s = pre @ ''/bounty'' @ sp1 @ ds @ fraction @ sp2 @ addr @ post"
    and sp: "sp1 \<noteq> []" "list_all (\<lambda>c. c = CHR '' '') sp1"
    and ad: "32 \<le> length addr" "list_all is_alphanumeric addr"
    unfolding spec_command_grammar_def by (elim exE conjE)
  have "hd sp1 = CHR '' ''" "hd sp1 \<in> set sp1" using sp by (cases sp1; simp)+
  then have "CHR '' '' \<in> set s" unfolding s by simp
  moreover have "CHR ''b'' \<in> set s" unfolding s by simp
  moreover have "filter is_alphanumeric addr = addr"
    using ad(2) by (simp add: list_all_iff)
  then have "length addr \<le> length (filter is_alphanumeric s)"
    unfolding s by simp
  ultimately show ?thesis using ad(1) by simp
qed


section \<open>The fallback status check\<close>

text \<open>
  Claim C10. The fallback status check is total and never propagates an error: for
  every signature and in every state \<open>checkTransactionStatus\<close> returns a boolean. The
  boolean is false when the network query throws or reports no status for the
  signature, and it is true exactly when the reported confirmation status is
  \<open>confirmed\<close> or \<open>finalized\<close>. Its only effect is the one query it makes.
\<close>

theorem C10_checkTransactionStatus_total:
  "checkTransactionStatus env sg w =
     (Inr (reported_status (getSignatureStatus env (calls w GetSignatureStatus) sg)
             \<in> {Some Confirmed, Some Finalized}),
      tick GetSignatureStatus w)"
  by (simp add: checkTransactionStatus_eq status_confirmed_def)

section \<open>Reports without a signature\<close>

text \<open>
  Claim C8, as amended. For every command for which no transaction signature was
  obtained, because \<open>createBountyTransaction\<close> throws, or because signing or the
  submission throws an error without a \<open>signature\<close> property (the handler of
  \<open>signAndSendTransaction\<close> takes such a property for the signature),
  \<open>processBountyCommand\<close> returns normally and posts at most one comment. When
  the issue lookup made for the report succeeds and the code host accepts the comment,
  it posts exactly the failure report on that issue, and the text of the report is the
  message of the error and nothing else: no signature and no explorer link are
  appended. When the lookup or the post fails, nothing is posted.
\<close>

theorem C8_no_signature_failure_report:
  assumes "fst (createBountyTransaction env cmd w) = Inl e
     \<or> (\<exists>resp. fst (createBountyTransaction env cmd w) = Inr resp
          \<and> \<not> carries_signature e
          \<and> (signTransaction env (serializedTransaction resp) = Inl e
             \<or> (\<exists>tx. signTransaction env (serializedTransaction resp) = Inr tx
                   \<and> sendTransaction env (calls w SendTransaction) tx = Inl e)))"
  shows "fst (processBountyCommand env cmd w) = Inr () \<and>
     posted (snd (processBountyCommand env cmd w)) = posted w @
       (case getIssue env (calls (snd (createBountyTransaction env cmd w)) GetIssue)
               (issueUrl cmd) of
          Inl lookupError \<Rightarrow> []
        | Inr issue \<Rightarrow>
            (case createComment env (calls w CreateComment)
                    (failure_report issue (error_message e)) of
               Inl commentError \<Rightarrow> []
             | Inr u \<Rightarrow> [failure_report issue (error_message e)]))"
proof -
  obtain r1 w1 where c1: "createBountyTransaction env cmd w = (r1, w1)" by (meson surj_pair)
  note k1 = keepsD[OF keeps_createBountyTransaction(1) c1]
  have ks: "calls w1 SendTransaction = calls w SendTransaction"
    "calls w1 CreateComment = calls w CreateComment"
    using keepsD[OF keeps_createBountyTransaction(4)[of SendTransaction] c1]
      keepsD[OF keeps_createBountyTransaction(4)[of CreateComment] c1] by simp_all
  have "\<exists>ro wc. processBountyCommand env cmd w = catch_block env cmd None ro e wc
      \<and> posted wc = posted w \<and> calls wc GetIssue = calls w1 GetIssue
      \<and> calls wc CreateComment = calls w CreateComment"
  proof (cases r1)
    case (Inl e')
    with assms c1 have "e' = e" by auto
    with Inl c1 have "processBountyCommand env cmd w = catch_block env cmd None None e w1"
      by (simp add: processBountyCommand_def)
    with k1 ks show ?thesis by blast
  next
    case (Inr resp)
    with assms c1 have nc: "\<not> carries_signature e"
      and d: "signTransaction env (serializedTransaction resp) = Inl e
             \<or> (\<exists>tx. signTransaction env (serializedTransaction resp) = Inr tx
                   \<and> sendTransaction env (calls w SendTransaction) tx = Inl e)" by auto
    from d have "\<exists>w2. signAndSendTransaction env (serializedTransaction resp) w1 = (Inl e, w2)"
      using signAndSend_sign_fails[OF _ nc] signAndSend_send_fails[OF _ _ nc, of env _ _ w1] ks
      by auto
    then obtain w2 where s2: "signAndSendTransaction env (serializedTransaction resp) w1 = (Inl e, w2)" ..
    have k2: "posted w2 = posted w" "calls w2 GetIssue = calls w1 GetIssue"
      "calls w2 CreateComment = calls w CreateComment"
      using keepsD[OF keeps_signAndSendTransaction(1) s2]
        keepsD[OF keeps_signAndSendTransaction(4)[of GetIssue] s2]
        keepsD[OF keeps_signAndSendTransaction(4)[of CreateComment] s2] k1 ks by simp_all
    from Inr c1 s2 have "processBountyCommand env cmd w = catch_block env cmd None (Some resp) e w2"
      by (simp add: processBountyCommand_def)
    with k2 show ?thesis by blast
  qed
  then obtain ro wc where cb: "processBountyCommand env cmd w = catch_block env cmd None ro e wc"
    and pw: "posted wc = posted w" and gi: "calls wc GetIssue = calls w1 GetIssue"
    and cc: "calls wc CreateComment = calls w CreateComment" by blast
  have "catch_block env cmd None ro e wc = report_failure env cmd None ro e wc"
    by (simp add: catch_block_def io_bind_def recover_success_no_signature)
  with cb have "processBountyCommand env cmd w = report_failure env cmd None ro e wc" by simp
  then show ?thesis
    using c1 pw gi cc
    by (simp add: report_failure_eq commentOnIssue_eq failure_message_def failure_report_def
        split: sum.splits)
qed

theorem C8_witness:
  "fst (createBountyTransaction env_sign_fails example_command initial_world) = Inr example_response
   \<and> signTransaction env_sign_fails (serializedTransaction example_response)
       = Inl (new_Error ''Invalid transaction blob'')
   \<and> getIssue env_sign_fails 1 (issueUrl example_command) = Inr example_issue
   \<and> createComment env_sign_fails 0
        (failure_report example_issue ''Invalid transaction blob'') = Inr ()
   \<and> posted (snd (processBountyCommand env_sign_fails example_command initial_world))
       = [posted_on_example_issue (IssueWithBountyCreation ''Invalid transaction blob'')]"
proof -
  have h1: "fst (createBountyTransaction env_sign_fails example_command initial_world)
      = Inr example_response"
    by (simp add: run_simps env_sign_fails_def scenario_simps)
  have h2: "signTransaction env_sign_fails (serializedTransaction example_response)
       = Inl (new_Error ''Invalid transaction blob'')"
    by (simp add: env_sign_fails_def nominal_env_def)
  have h3: "\<not> carries_signature (new_Error ''Invalid transaction blob'')"
    by (simp add: carries_signature_def new_Error_def)
  have n: "calls (snd (createBountyTransaction env_sign_fails example_command initial_world))
      GetIssue = 1"
    by (simp add: run_simps env_sign_fails_def scenario_simps tick_def)
  have g: "getIssue env_sign_fails 1 (issueUrl example_command) = Inr example_issue"
    "\<And>c. createComment env_sign_fails 0 c = Inr ()"
    by (simp_all add: env_sign_fails_def nominal_env_def)
  have m: "error_message (new_Error ''Invalid transaction blob'') = ''Invalid transaction blob''"
    by (simp add: new_Error_def)
  have r: "failure_report example_issue ''Invalid transaction blob''
      = posted_on_example_issue (IssueWithBountyCreation ''Invalid transaction blob'')"
    by (simp add: failure_report_def posted_on_example_issue_def example_issue_def
        example_repo_info)
  have z: "calls initial_world CreateComment = 0" "posted initial_world = []"
    by (simp_all add: initial_world_def)
  from h1 h2 h3 have "fst (createBountyTransaction env_sign_fails example_command initial_world)
       = Inl (new_Error ''Invalid transaction blob'')
     \<or> (\<exists>resp. fst (createBountyTransaction env_sign_fails example_command initial_world) = Inr resp
          \<and> \<not> carries_signature (new_Error ''Invalid transaction blob'')
          \<and> (signTransaction env_sign_fails (serializedTransaction resp)
                = Inl (new_Error ''Invalid transaction blob'')
             \<or> (\<exists>tx. signTransaction env_sign_fails (serializedTransaction resp) = Inr tx
                   \<and> sendTransaction env_sign_fails (calls initial_world SendTransaction) tx
                      = Inl (new_Error ''Invalid transaction blob''))))"
    by blast
  from C8_no_signature_failure_report[OF this] h1 h2 g
  show ?thesis by (simp add: n m r z)
qed

text \<open>
  The claim as it was stated says that a failure report is posted. Here signing throws
  and the code host rejects the comment: \<open>processBountyCommand\<close> returns normally and
  no report is posted.
\<close>

theorem C8_no_report_when_post_rejected:
  "fst (createBountyTransaction env_sign_fails_post_rejected example_command initial_world)
     = Inr example_response
   \<and> signTransaction env_sign_fails_post_rejected (serializedTransaction example_response)
       = Inl (new_Error ''Invalid transaction blob'')
   \<and> fst (processBountyCommand env_sign_fails_post_rejected example_command initial_world)
       = Inr ()
   \<and> posted (snd (processBountyCommand env_sign_fails_post_rejected example_command
        initial_world)) = []"
  by (simp add: run_simps env_sign_fails_post_rejected_def env_sign_fails_def scenario_simps
      example_repo_info failure_message_def)

section \<open>Retention of the signature\<close>

text \<open>
  Claim C1. The claim: once the submission has returned a signature, every outcome
  reported for the command references it. The run below shows the code losing it.
  The submission returns the signature \<open>SIG\<close>, the confirmation request times out and
  the fallback status check finds no status. \<open>signAndSendTransaction\<close> then throws a
  new error that does not carry the signature, \<open>transactionSignature\<close> is never
  assigned, and the failure comment that is posted has neither the signature nor an
  explorer link.
\<close>

theorem C1_signature_lost_on_failure:
  "sendTransaction env_signature_lost 0 ''signed:AAAA'' = Inr ''SIG''
   \<and> fst (signAndSendTransaction env_signature_lost ''AAAA'' initial_world)
       = Inl (new_Error ''Transaction may have failed: Confirmation timeout'')
   \<and> posted (snd (processBountyCommand env_signature_lost example_command initial_world))
       = [posted_on_example_issue
            (IssueWithBountyCreation ''Transaction may have failed: Confirmation timeout'')]"
  by (simp add: run_simps env_signature_lost_def scenario_simps example_repo_info
      failure_message_def)


section \<open>Confirmation errors with a confirmed fallback check\<close>

text \<open>
  Claim C2, as amended. For every submitted transaction whose primary confirmation
  errors or times out (the blockhash request or the confirmation request throws) and
  whose fallback status check reports \<open>confirmed\<close> or \<open>finalized\<close>,
  \<open>signAndSendTransaction\<close> returns the submitted signature; and when the issue lookup
  that follows succeeds and the code host accepts the comment, the one report posted is
  the success comment, with the explorer link of that signature.
\<close>

theorem C2_fallback_confirmed_success:
  assumes create: "fst (createBountyTransaction env cmd w) = Inr resp"
    and sign: "signTransaction env (serializedTransaction resp) = Inr tx"
    and send: "sendTransaction env (calls w SendTransaction) tx = Inr sg"
    and primary: "getLatestBlockhash env (calls w GetLatestBlockhash) = Inl e
       \<or> confirmTransaction env (calls w ConfirmTransaction) sg = Inl e"
    and fallback: "reported_status (getSignatureStatus env (calls w GetSignatureStatus) sg)
       \<in> {Some Confirmed, Some Finalized}"
    and lookup: "getIssue env (Suc (calls w GetIssue)) (issueUrl cmd) = Inr issue"
    and post: "\<forall>c. createComment env (calls w CreateComment) c = Inr ()"
  shows "fst (signAndSendTransaction env (serializedTransaction resp)
               (snd (createBountyTransaction env cmd w))) = Inr sg
     \<and> posted (snd (processBountyCommand env cmd w)) = posted w @
         [\<lparr>c_owner = fst (getRepoInfoFromUrl (repository_url issue)),
           c_repo = snd (getRepoInfoFromUrl (repository_url issue)),
           c_issue_number = issue_number issue,
           c_body = BountyCreated (taskId resp) (amount cmd) (tokenType_of (tokenAddress cmd))
             (statusNote_of (status_confirmed
                (getSignatureStatus env (Suc (calls w GetSignatureStatus)) sg)))
             (bountyUrl_of (taskId resp)) (explorerUrl_of sg)\<rparr>]"
proof -
  obtain w1 where c1: "createBountyTransaction env cmd w = (Inr resp, w1)"
    using create by (metis prod.collapse)
  have k: "posted w1 = posted w" "calls w1 SendTransaction = calls w SendTransaction"
    "calls w1 GetLatestBlockhash = calls w GetLatestBlockhash"
    "calls w1 ConfirmTransaction = calls w ConfirmTransaction"
    "calls w1 GetSignatureStatus = calls w GetSignatureStatus"
    "calls w1 CreateComment = calls w CreateComment"
    using keepsD[OF keeps_createBountyTransaction(1) c1]
      keepsD[OF keeps_createBountyTransaction(4) c1] by simp_all
  have gi: "calls w1 GetIssue = Suc (calls w GetIssue)"
    using c1 by (rule createBountyTransaction_issue_calls)
  have st: "status_confirmed (getSignatureStatus env (calls w1 GetSignatureStatus) sg)"
    using fallback k by (simp add: status_confirmed_def)
  have s1: "sendTransaction env (calls w1 SendTransaction) tx = Inr sg"
    using send k by simp
  have p1: "getLatestBlockhash env (calls w1 GetLatestBlockhash) = Inl e
       \<or> confirmTransaction env (calls w1 ConfirmTransaction) sg = Inl e"
    using primary k by simp
  from signAndSend_fallback_confirmed[OF sign s1 p1 st] k
  obtain w2 where s2: "signAndSendTransaction env (serializedTransaction resp) w1 = (Inr sg, w2)"
    and g2: "calls w2 GetSignatureStatus = Suc (calls w GetSignatureStatus)" by auto
  have k2: "posted w2 = posted w" "calls w2 GetIssue = Suc (calls w GetIssue)"
    "calls w2 CreateComment = calls w CreateComment"
    using keepsD[OF keeps_signAndSendTransaction(1) s2]
      keepsD[OF keeps_signAndSendTransaction(4) s2] k gi by simp_all
  let ?c = "\<lparr>c_owner = fst (getRepoInfoFromUrl (repository_url issue)),
           c_repo = snd (getRepoInfoFromUrl (repository_url issue)),
           c_issue_number = issue_number issue,
           c_body = BountyCreated (taskId resp) (amount cmd) (tokenType_of (tokenAddress cmd))
             (statusNote_of (status_confirmed
                (getSignatureStatus env (Suc (calls w GetSignatureStatus)) sg)))
             (bountyUrl_of (taskId resp)) (explorerUrl_of sg)\<rparr>"
  have r3: "report_success env cmd resp sg w2 =
      (Inr (), (tick CreateComment (tick GetSignatureStatus (tick GetIssue w2)))
                 \<lparr>posted := posted w @ [?c]\<rparr>)"
    using lookup post k2 g2 by (simp add: report_success_eq commentOnIssue_eq)
  have "processBountyCommand env cmd w =
      (Inr (), (tick CreateComment (tick GetSignatureStatus (tick GetIssue w2)))
                 \<lparr>posted := posted w @ [?c]\<rparr>)"
    using c1 s2 r3 by (simp add: processBountyCommand_def)
  with c1 s2 show ?thesis by simp
qed

theorem C2_witness:
  "fst (createBountyTransaction env_timeout_confirmed example_command initial_world)
     = Inr example_response
   \<and> sendTransaction env_timeout_confirmed 0 ''signed:AAAA'' = Inr ''SIG''
   \<and> confirmTransaction env_timeout_confirmed 0 ''SIG'' = Inl timeout_error
   \<and> reported_status (getSignatureStatus env_timeout_confirmed 0 ''SIG'') = Some Confirmed
   \<and> fst (signAndSendTransaction env_timeout_confirmed (serializedTransaction example_response)
           (snd (createBountyTransaction env_timeout_confirmed example_command initial_world)))
       = Inr ''SIG''
   \<and> posted (snd (processBountyCommand env_timeout_confirmed example_command initial_world))
       = [posted_on_example_issue
            (BountyCreated ''T1'' (Finite 5) ''SOL'' ''Transaction confirmed.''
               ''https://app.gib.work/tasks/T1'' ''https://explorer.solana.com/tx/SIG'')]"
proof -
  have h1: "fst (createBountyTransaction env_timeout_confirmed example_command initial_world)
     = Inr example_response"
    by (simp add: run_simps env_timeout_confirmed_def scenario_simps)
  have h2: "signTransaction env_timeout_confirmed (serializedTransaction example_response)
     = Inr ''signed:AAAA''"
    by (simp add: env_timeout_confirmed_def scenario_simps)
  have h3: "sendTransaction env_timeout_confirmed (calls initial_world SendTransaction)
     ''signed:AAAA'' = Inr ''SIG''"
    by (simp add: env_timeout_confirmed_def scenario_simps)
  have c: "confirmTransaction env_timeout_confirmed (calls initial_world ConfirmTransaction)
     ''SIG'' = Inl timeout_error"
    by (simp add: env_timeout_confirmed_def nominal_env_def)
  then have h4: "getLatestBlockhash env_timeout_confirmed (calls initial_world GetLatestBlockhash)
       = Inl timeout_error
     \<or> confirmTransaction env_timeout_confirmed (calls initial_world ConfirmTransaction) ''SIG''
       = Inl timeout_error"
    by (rule disjI2)
  have r: "reported_status (getSignatureStatus env_timeout_confirmed
      (calls initial_world GetSignatureStatus) ''SIG'') = Some Confirmed"
    by (simp add: env_timeout_confirmed_def nominal_env_def reported_status_def
        status_answer_def)
  then have h5: "reported_status (getSignatureStatus env_timeout_confirmed
      (calls initial_world GetSignatureStatus) ''SIG'') \<in> {Some Confirmed, Some Finalized}"
    by simp
  have h6: "getIssue env_timeout_confirmed (Suc (calls initial_world GetIssue))
      (issueUrl example_command) = Inr example_issue"
    by (simp add: env_timeout_confirmed_def nominal_env_def)
  have h7: "\<forall>c. createComment env_timeout_confirmed (calls initial_world CreateComment) c = Inr ()"
    by (simp add: env_timeout_confirmed_def nominal_env_def)
  have z: "calls initial_world SendTransaction = 0" "calls initial_world ConfirmTransaction = 0"
    "calls initial_world GetSignatureStatus = 0"
    by (simp_all add: initial_world_def)
  have e: "posted (snd (processBountyCommand env_timeout_confirmed example_command initial_world))
       = [posted_on_example_issue
            (BountyCreated ''T1'' (Finite 5) ''SOL'' ''Transaction confirmed.''
               ''https://app.gib.work/tasks/T1'' ''https://explorer.solana.com/tx/SIG'')]"
    by (simp add: run_simps env_timeout_confirmed_def scenario_simps example_repo_info)
  from C2_fallback_confirmed_success[OF h1 h2 h3 h4 h5 h6 h7] h1 h3 c r e z
  show ?thesis by simp
qed

text \<open>
  The claim as it was stated fails when the code host rejects the comment. Here the
  confirmation times out, every status check reports \<open>confirmed\<close>, and the code host
  rejects the first two comments: the success comment of the normal path and the one of
  the recovery path. The third comment, the failure report, is accepted.
\<close>

theorem C2_failure_report_after_confirmed_fallback:
  "sendTransaction env_post_rejected_twice 0 ''signed:AAAA'' = Inr ''SIG''
   \<and> confirmTransaction env_post_rejected_twice 0 ''SIG'' = Inl timeout_error
   \<and> reported_status (getSignatureStatus env_post_rejected_twice 0 ''SIG'') = Some Confirmed
   \<and> fst (signAndSendTransaction env_post_rejected_twice (serializedTransaction example_response)
           (snd (createBountyTransaction env_post_rejected_twice example_command initial_world)))
       = Inr ''SIG''
   \<and> posted (snd (processBountyCommand env_post_rejected_twice example_command initial_world))
       = [posted_on_example_issue
            (IssueWithBountyCreation
               (''Bad Gateway'' @ nl @ nl
                @ ''Transaction was sent but confirmation failed. ''
                @ ''The bounty may still have been created:'' @ nl
                @ ''- Bounty: [View on Gib.work](https://app.gib.work/tasks/T1) ''
                @ ''(Private bounty, only accessible via this link)'' @ nl
                @ ''- Transaction: [View on Solana Explorer]''
                @ ''(https://explorer.solana.com/tx/SIG)''))]"
  by (simp add: run_simps env_post_rejected_twice_def env_timeout_confirmed_def scenario_simps
      example_repo_info failure_message_def nl_def)

section \<open>Block height exceeded\<close>

text \<open>
  Claim C5, as amended. For every submitted transaction whose confirmation request
  fails with a block-height-exceeded error and whose first fallback status check does
  not confirm, \<open>signAndSendTransaction\<close> makes \<open>k\<close> further status checks, each after
  a delay of five seconds, with \<open>k\<close> at most 3 and equal to 3 when none of the three
  confirms, and then returns the submitted signature instead of throwing. When the
  issue lookup that follows succeeds and the code host accepts the comment, the one
  report posted is the success comment with the explorer link of the signature; its
  status note is decided by one more status check, made for the report: it says that the
  confirmation is pending when that check does not confirm either.
\<close>

theorem C5_blockheight_exceeded_checks:
  assumes create: "fst (createBountyTransaction env cmd w) = Inr resp"
    and sign: "signTransaction env (serializedTransaction resp) = Inr tx"
    and send: "sendTransaction env (calls w SendTransaction) tx = Inr sg"
    and blockhash: "getLatestBlockhash env (calls w GetLatestBlockhash) = Inr lb"
    and confirm: "confirmTransaction env (calls w ConfirmTransaction) sg = Inl e"
    and exceeded: "blockheight_exceeded e"
    and first: "\<not> status_confirmed (getSignatureStatus env (calls w GetSignatureStatus) sg)"
  shows "\<exists>w2 k.
      signAndSendTransaction env (serializedTransaction resp)
        (snd (createBountyTransaction env cmd w)) = (Inr sg, w2)
      \<and> k \<le> 3
      \<and> calls w2 GetSignatureStatus = calls w GetSignatureStatus + 1 + k
      \<and> waited w2 = waited w + 5000 * (1 + k)
      \<and> (\<not> status_confirmed (getSignatureStatus env (calls w GetSignatureStatus + 1) sg)
         \<and> \<not> status_confirmed (getSignatureStatus env (calls w GetSignatureStatus + 2) sg)
         \<and> \<not> status_confirmed (getSignatureStatus env (calls w GetSignatureStatus + 3) sg)
         \<longrightarrow> k = 3)
      \<and> (getIssue env (Suc (calls w GetIssue)) (issueUrl cmd) = Inr issue
         \<and> (\<forall>c. createComment env (calls w CreateComment) c = Inr ())
         \<longrightarrow> posted (snd (processBountyCommand env cmd w)) = posted w @
               [\<lparr>c_owner = fst (getRepoInfoFromUrl (repository_url issue)),
                 c_repo = snd (getRepoInfoFromUrl (repository_url issue)),
                 c_issue_number = issue_number issue,
                 c_body = BountyCreated (taskId resp) (amount cmd)
                   (tokenType_of (tokenAddress cmd))
                   (statusNote_of (status_confirmed
                      (getSignatureStatus env (calls w GetSignatureStatus + 1 + k) sg)))
                   (bountyUrl_of (taskId resp)) (explorerUrl_of sg)\<rparr>])"
proof -
  obtain w1 where c1: "createBountyTransaction env cmd w = (Inr resp, w1)"
    using create by (metis prod.collapse)
  have k1: "posted w1 = posted w" "calls w1 SendTransaction = calls w SendTransaction"
    "calls w1 GetLatestBlockhash = calls w GetLatestBlockhash"
    "calls w1 ConfirmTransaction = calls w ConfirmTransaction"
    "calls w1 GetSignatureStatus = calls w GetSignatureStatus"
    "calls w1 CreateComment = calls w CreateComment" "waited w1 = waited w"
    using keepsD[OF keeps_createBountyTransaction(1) c1]
      keepsD[OF keeps_createBountyTransaction(4) c1]
      keepsD[OF keeps_waited_createBountyTransaction c1] by simp_all
  have gi: "calls w1 GetIssue = Suc (calls w GetIssue)"
    using c1 by (rule createBountyTransaction_issue_calls)
  have s1: "sendTransaction env (calls w1 SendTransaction) tx = Inr sg"
    and b1: "getLatestBlockhash env (calls w1 GetLatestBlockhash) = Inr lb"
    and f1: "confirmTransaction env (calls w1 ConfirmTransaction) sg = Inl e"
    and n1: "\<not> status_confirmed (getSignatureStatus env (calls w1 GetSignatureStatus) sg)"
    using send blockhash confirm first k1 by simp_all
  from signAndSend_blockheight[OF sign s1 b1 f1 exceeded n1] k1
  obtain w2 k where s2: "signAndSendTransaction env (serializedTransaction resp) w1 = (Inr sg, w2)"
    and k: "k \<le> 3"
    and g2: "calls w2 GetSignatureStatus = calls w GetSignatureStatus + 1 + k"
    and t2: "waited w2 = waited w + 5000 * (1 + k)"
    and ex: "\<not> status_confirmed (getSignatureStatus env (calls w GetSignatureStatus + 1) sg)
         \<and> \<not> status_confirmed (getSignatureStatus env (calls w GetSignatureStatus + 2) sg)
         \<and> \<not> status_confirmed (getSignatureStatus env (calls w GetSignatureStatus + 3) sg)
         \<longrightarrow> k = 3"
    by auto
  have k2: "posted w2 = posted w" "calls w2 GetIssue = Suc (calls w GetIssue)"
    "calls w2 CreateComment = calls w CreateComment"
    using keepsD[OF keeps_signAndSendTransaction(1) s2]
      keepsD[OF keeps_signAndSendTransaction(4) s2] k1 gi by simp_all
  let ?c = "\<lparr>c_owner = fst (getRepoInfoFromUrl (repository_url issue)),
           c_repo = snd (getRepoInfoFromUrl (repository_url issue)),
           c_issue_number = issue_number issue,
           c_body = BountyCreated (taskId resp) (amount cmd) (tokenType_of (tokenAddress cmd))
             (statusNote_of (status_confirmed
                (getSignatureStatus env (calls w GetSignatureStatus + 1 + k) sg)))
             (bountyUrl_of (taskId resp)) (explorerUrl_of sg)\<rparr>"
  have rep: "posted (snd (processBountyCommand env cmd w)) = posted w @ [?c]"
    if lookup: "getIssue env (Suc (calls w GetIssue)) (issueUrl cmd) = Inr issue"
      and post: "\<forall>c. createComment env (calls w CreateComment) c = Inr ()"
  proof -
    have r3: "report_success env cmd resp sg w2 =
      (Inr (), (tick CreateComment (tick GetSignatureStatus (tick GetIssue w2)))
                 \<lparr>posted := posted w @ [?c]\<rparr>)"
      using lookup post k2 g2 by (simp add: report_success_eq commentOnIssue_eq)
    have "processBountyCommand env cmd w =
      (Inr (), (tick CreateComment (tick GetSignatureStatus (tick GetIssue w2)))
                 \<lparr>posted := posted w @ [?c]\<rparr>)"
      using c1 s2 r3 by (simp add: processBountyCommand_def)
    then show ?thesis by simp
  qed
  show ?thesis
    apply (rule exI[of _ w2], rule exI[of _ k])
    using c1 s2 k g2 t2 ex rep by simp
qed

theorem C5_witness:
  "fst (createBountyTransaction env_blockheight example_command initial_world)
     = Inr example_response
   \<and> sendTransaction env_blockheight 0 ''signed:AAAA'' = Inr ''SIG''
   \<and> confirmTransaction env_blockheight 0 ''SIG'' = Inl blockheight_error
   \<and> blockheight_exceeded blockheight_error
   \<and> fst (signAndSendTransaction env_blockheight (serializedTransaction example_response)
           (snd (createBountyTransaction env_blockheight example_command initial_world)))
       = Inr ''SIG''
   \<and> calls (snd (signAndSendTransaction env_blockheight (serializedTransaction example_response)
           (snd (createBountyTransaction env_blockheight example_command initial_world))))
        GetSignatureStatus = 4
   \<and> waited (snd (signAndSendTransaction env_blockheight (serializedTransaction example_response)
           (snd (createBountyTransaction env_blockheight example_command initial_world))))
       = 20000
   \<and> posted (snd (processBountyCommand env_blockheight example_command initial_world))
       = [posted_on_example_issue
            (BountyCreated ''T1'' (Finite 5) ''SOL''
               (''Transaction submitted but confirmation is pending. ''
                @ ''You can check its status using the transaction link below.'')
               ''https://app.gib.work/tasks/T1'' ''https://explorer.solana.com/tx/SIG'')]"
proof -
  have h1: "fst (createBountyTransaction env_blockheight example_command initial_world)
     = Inr example_response"
    by (simp add: run_simps env_blockheight_def scenario_simps)
  have h2: "signTransaction env_blockheight (serializedTransaction example_response)
     = Inr ''signed:AAAA''"
    by (simp add: env_blockheight_def scenario_simps)
  have h3: "sendTransaction env_blockheight (calls initial_world SendTransaction)
     ''signed:AAAA'' = Inr ''SIG''"
    by (simp add: env_blockheight_def scenario_simps)
  have h4: "getLatestBlockhash env_blockheight (calls initial_world GetLatestBlockhash)
     = Inr (''HASH'', 100)"
    by (simp add: env_blockheight_def scenario_simps)
  have h5: "confirmTransaction env_blockheight (calls initial_world ConfirmTransaction) ''SIG''
     = Inl blockheight_error"
    by (simp add: env_blockheight_def nominal_env_def)
  have h6: "blockheight_exceeded blockheight_error"
    by (simp add: blockheight_error_def)
  have h7: "\<not> status_confirmed (getSignatureStatus env_blockheight
      (calls initial_world GetSignatureStatus) ''SIG'')"
    by (simp add: env_blockheight_def scenario_simps)
  have z: "calls initial_world SendTransaction = 0" "calls initial_world ConfirmTransaction = 0"
    by (simp_all add: initial_world_def)
  have e1: "fst (signAndSendTransaction env_blockheight (serializedTransaction example_response)
           (snd (createBountyTransaction env_blockheight example_command initial_world)))
       = Inr ''SIG''"
    and e2: "calls (snd (signAndSendTransaction env_blockheight
           (serializedTransaction example_response)
           (snd (createBountyTransaction env_blockheight example_command initial_world))))
        GetSignatureStatus = 4"
    and e3: "waited (snd (signAndSendTransaction env_blockheight
           (serializedTransaction example_response)
           (snd (createBountyTransaction env_blockheight example_command initial_world))))
       = 20000"
    by (simp_all add: run_simps env_blockheight_def scenario_simps additional_checks.simps)
  have e4: "posted (snd (processBountyCommand env_blockheight example_command initial_world))
       = [posted_on_example_issue
            (BountyCreated ''T1'' (Finite 5) ''SOL''
               (''Transaction submitted but confirmation is pending. ''
                @ ''You can check its status using the transaction link below.'')
               ''https://app.gib.work/tasks/T1'' ''https://explorer.solana.com/tx/SIG'')]"
    by (simp add: run_simps env_blockheight_def scenario_simps example_repo_info
        additional_checks.simps)
  from C5_blockheight_exceeded_checks[OF h1 h2 h3 h4 h5 h6 h7] h1 h3 h5 h6 z e1 e2 e3 e4
  show ?thesis by simp
qed

text \<open>
  The claim as it was stated fails in two ways. In the first run the issue lookup made
  for the report is rejected once: the catch block asks for the status again, finds none
  and posts the failure comment. In the second run the status check made for the report
  is the first to confirm: the report says that the transaction is confirmed, not that
  the confirmation is pending.
\<close>

theorem C5_failure_or_confirmed_report:
  "confirmTransaction env_blockheight_lookup_fails 0 ''SIG'' = Inl blockheight_error
   \<and> fst (signAndSendTransaction env_blockheight_lookup_fails
           (serializedTransaction example_response)
           (snd (createBountyTransaction env_blockheight_lookup_fails example_command
                   initial_world)))
       = Inr ''SIG''
   \<and> posted (snd (processBountyCommand env_blockheight_lookup_fails example_command
                     initial_world))
       = [posted_on_example_issue
            (IssueWithBountyCreation
               (''Bad Gateway'' @ nl @ nl
                @ ''Transaction was sent but confirmation failed. ''
                @ ''The bounty may still have been created:'' @ nl
                @ ''- Bounty: [View on Gib.work](https://app.gib.work/tasks/T1) ''
                @ ''(Private bounty, only accessible via this link)'' @ nl
                @ ''- Transaction: [View on Solana Explorer]''
                @ ''(https://explorer.solana.com/tx/SIG)''))]
   \<and> confirmTransaction env_blockheight_late 0 ''SIG'' = Inl blockheight_error
   \<and> calls (snd (signAndSendTransaction env_blockheight_late
           (serializedTransaction example_response)
           (snd (createBountyTransaction env_blockheight_late example_command initial_world))))
        GetSignatureStatus = 4
   \<and> posted (snd (processBountyCommand env_blockheight_late example_command initial_world))
       = [posted_on_example_issue
            (BountyCreated ''T1'' (Finite 5) ''SOL'' ''Transaction confirmed.''
               ''https://app.gib.work/tasks/T1'' ''https://explorer.solana.com/tx/SIG'')]"
  by (simp add: run_simps env_blockheight_lookup_fails_def env_blockheight_late_def
      env_blockheight_def scenario_simps example_repo_info failure_message_def nl_def
      additional_checks.simps)


section \<open>Failures stay inside the pipeline\<close>




section \<open>Deduplication of comments\<close>

text \<open>
  Claim C4, as amended. For every comment id that is in the registry of processed
  comments, no later run of the scheduled jobs (poll ticks and clean-ups, in any order)
  calls the pipeline for that id again. A poll tick calls the pipeline at most once for
  any id, however often the id occurs among the fetched comments. When two comments with
  the same id, not seen before, arrive in one poll tick and the first carries the
  command of an authorized user, the pipeline is called exactly once, for that command,
  and at most one report is posted: exactly one when the code host answers the issue
  lookups and accepts the comment.
\<close>

theorem C4_processed_comments_not_reprocessed:
  "(cid \<in> processedComments w \<longrightarrow>
      filter (\<lambda>p. fst p = cid) (invoked (run_jobs env js w))
        = filter (\<lambda>p. fst p = cid) (invoked w))
   \<and> length (filter (\<lambda>p. fst p = cid) (invoked (snd (checkForBountyCommands env w))))
       \<le> length (filter (\<lambda>p. fst p = cid) (invoked w)) + 1
   \<and> (REPOSITORIES env = [r]
       \<and> listCommentsForRepo env (calls w ListComments) (fst (parseRepoFullName r))
            (snd (parseRepoFullName r)) = Inr [c, c']
       \<and> comment_id c' = comment_id c
       \<and> comment_id c \<notin> processedComments w
       \<and> parseBountyCommand env c = Some cmd
       \<longrightarrow> invoked (snd (checkForBountyCommands env w)) = invoked w @ [(comment_id c, cmd)]
         \<and> (\<exists>cs. posted (snd (checkForBountyCommands env w)) = posted w @ cs
               \<and> length cs \<le> 1 \<and> (github_answers env \<longrightarrow> length cs = 1)))"
proof (intro conjI impI)
  assume "cid \<in> processedComments w"
  with run_jobs_poll_step[of w env js]
  show "filter (\<lambda>p. fst p = cid) (invoked (run_jobs env js w))
        = filter (\<lambda>p. fst p = cid) (invoked w)"
    by (rule poll_step_seen)
next
  show "length (filter (\<lambda>p. fst p = cid) (invoked (snd (checkForBountyCommands env w))))
       \<le> length (filter (\<lambda>p. fst p = cid) (invoked w)) + 1"
    using checkForBountyCommands_poll_step(2)[of w env] by (rule poll_step_once)
next
  assume h: "REPOSITORIES env = [r]
       \<and> listCommentsForRepo env (calls w ListComments) (fst (parseRepoFullName r))
            (snd (parseRepoFullName r)) = Inr [c, c']
       \<and> comment_id c' = comment_id c
       \<and> comment_id c \<notin> processedComments w
       \<and> parseBountyCommand env c = Some cmd"
  let ?w2 = "(tick ListComments w)
             \<lparr>processedComments := insert (comment_id c) (processedComments w),
              invoked := invoked w @ [(comment_id c, cmd)]\<rparr>"
  from h have h1: "REPOSITORIES env = [r]"
    and h2: "listCommentsForRepo env (calls w ListComments) (fst (parseRepoFullName r))
            (snd (parseRepoFullName r)) = Inr [c, c']"
    and h3: "comment_id c' = comment_id c"
    and h4: "comment_id c \<notin> processedComments w"
    and h5: "parseBountyCommand env c = Some cmd"
    by blast+
  note t = duplicate_comment_tick[OF h1 h2 h3 h4 h5]
  show "invoked (snd (checkForBountyCommands env w)) = invoked w @ [(comment_id c, cmd)]"
    unfolding t by (simp add: processBountyCommand_frame)
  show "\<exists>cs. posted (snd (checkForBountyCommands env w)) = posted w @ cs
               \<and> length cs \<le> 1 \<and> (github_answers env \<longrightarrow> length cs = 1)"
    unfolding t using processBountyCommand_posts[of env cmd ?w2] by simp
qed

theorem C4_witness:
  "101 \<in> processedComments (snd (checkForBountyCommands env_duplicate initial_world))
   \<and> filter (\<lambda>p. fst p = 101)
       (invoked (run_jobs env_duplicate [Tick, Cleanup, Tick]
          (snd (checkForBountyCommands env_duplicate initial_world))))
      = [(101, example_command)]
   \<and> invoked (snd (checkForBountyCommands env_duplicate initial_world))
      = [(101, example_command)]
   \<and> length (posted (snd (checkForBountyCommands env_duplicate initial_world))) = 1"
proof -
  have a: "AUTHORIZED_USERS env_duplicate = [''Alice'']"
    and r: "REPOSITORIES env_duplicate = [''acme/widget'']"
    by (simp_all add: env_duplicate_def nominal_env_def)
  have l: "listCommentsForRepo env_duplicate (calls initial_world ListComments)
      (fst (parseRepoFullName ''acme/widget'')) (snd (parseRepoFullName ''acme/widget''))
      = Inr [example_comment, example_comment]"
    by (simp add: env_duplicate_def nominal_env_def)
  have n: "comment_id example_comment \<notin> processedComments initial_world"
    by (simp add: initial_world_def)
  have i: "comment_id example_comment = 101"
    by (simp add: example_comment_def)
  have g: "github_answers env_duplicate"
    by (simp add: github_answers_def env_duplicate_def nominal_env_def)
  have e: "posted initial_world = []" "invoked initial_world = []"
    by (simp_all add: initial_world_def)
  note p = example_comment_parses[OF a]
  let ?w1 = "snd (checkForBountyCommands env_duplicate initial_world)"
  have tick: "invoked ?w1 = [(101, example_command)]" "length (posted ?w1) = 1"
    using C4_processed_comments_not_reprocessed[of 101 initial_world env_duplicate "[]"
        "''acme/widget''" example_comment example_comment example_command] r l n p g i e
    by auto
  have seen: "101 \<in> processedComments ?w1"
    unfolding duplicate_comment_tick[OF r l refl n p]
    by (simp add: processBountyCommand_frame i)
  from C4_processed_comments_not_reprocessed[of 101 ?w1 env_duplicate "[Tick, Cleanup, Tick]"
        "''acme/widget''" example_comment example_comment example_command] seen tick
  show ?thesis by simp
qed

text \<open>
  The claim as it was stated promises exactly one posted report for two comments with the
  same id. With the code host refusing the issue lookup, the two comments lead to one
  call of the pipeline and to no report.
\<close>

theorem C4_one_invocation_no_report:
  "listCommentsForRepo env_duplicate_github_down 0 (Some ''acme'') (Some ''widget'')
     = Inr [example_comment, example_comment]
   \<and> parseBountyCommand env_duplicate_github_down example_comment = Some example_command
   \<and> invoked (snd (checkForBountyCommands env_duplicate_github_down initial_world))
       = [(101, example_command)]
   \<and> posted (snd (checkForBountyCommands env_duplicate_github_down initial_world)) = []"
proof -
  have a: "AUTHORIZED_USERS env_duplicate_github_down = [''Alice'']"
    and r: "REPOSITORIES env_duplicate_github_down = [''acme/widget'']"
    by (simp_all add: env_duplicate_github_down_def env_duplicate_def nominal_env_def)
  have l: "listCommentsForRepo env_duplicate_github_down (calls initial_world ListComments)
      (fst (parseRepoFullName ''acme/widget'')) (snd (parseRepoFullName ''acme/widget''))
      = Inr [example_comment, example_comment]"
    and l0: "listCommentsForRepo env_duplicate_github_down 0 (Some ''acme'') (Some ''widget'')
     = Inr [example_comment, example_comment]"
    by (simp_all add: env_duplicate_github_down_def env_duplicate_def nominal_env_def)
  have n: "comment_id example_comment \<notin> processedComments initial_world"
    by (simp add: initial_world_def)
  note p = example_comment_parses[OF a]
  note t = duplicate_comment_tick[OF r l refl n p]
  have "invoked (snd (checkForBountyCommands env_duplicate_github_down initial_world))
       = [(101, example_command)]"
    unfolding t
    by (simp add: processBountyCommand_frame initial_world_def example_comment_def)
  moreover have "posted (snd (checkForBountyCommands env_duplicate_github_down initial_world))
       = []"
    unfolding t
    by (simp add: run_simps env_duplicate_github_down_def env_duplicate_def scenario_simps)
  ultimately show ?thesis using p l0 by simp
qed


section \<open>Unauthorized requesters\<close>

text \<open>
  Claim C3. The claim: a comment that matches the command grammar but whose requester is
  not on the allow-list never reaches the pipeline, and the caller answers with an
  explicit \<open>not authorized\<close> response. The run below shows the first half holding and
  the second half missing. The comment of \<open>mallory\<close> matches the pattern, the allow-list
  holds \<open>Alice\<close> only, and the poll tick marks the comment processed, calls nothing and
  posts nothing: \<open>parseBountyCommand\<close> answers \<open>null\<close> as it does for a comment without
  a command, and \<open>checkForBountyCommands\<close> has no branch for it.
\<close>

theorem C3_unauthorized_silently_dropped:
  "regex_match (body unauthorized_comment)
     = Some (''5'', ''So11111111111111111111111111111111111111112'')
   \<and> \<not> isAuthorized env_unauthorized (user_login unauthorized_comment)
   \<and> parseBountyCommand env_unauthorized unauthorized_comment = None
   \<and> processedComments (snd (checkForBountyCommands env_unauthorized initial_world)) = {102}
   \<and> invoked (snd (checkForBountyCommands env_unauthorized initial_world)) = []
   \<and> posted (snd (checkForBountyCommands env_unauthorized initial_world)) = []
   \<and> calls (snd (checkForBountyCommands env_unauthorized initial_world)) CreateComment = 0"
proof -
  have a: "AUTHORIZED_USERS env_unauthorized = [''Alice'']"
    and r: "REPOSITORIES env_unauthorized = [''acme/widget'']"
    by (simp_all add: env_unauthorized_def nominal_env_def)
  have l: "listCommentsForRepo env_unauthorized (calls initial_world ListComments)
      (fst (parseRepoFullName ''acme/widget'')) (snd (parseRepoFullName ''acme/widget''))
      = Inr [unauthorized_comment]"
    by (simp add: env_unauthorized_def nominal_env_def)
  have n: "comment_id unauthorized_comment \<notin> processedComments (tick ListComments initial_world)"
    by (simp add: initial_world_def)
  note p = unauthorized_comment_dropped[OF a]
  have m: "regex_match (body unauthorized_comment)
     = Some (''5'', ''So11111111111111111111111111111111111111112'')"
    by (simp add: unauthorized_comment_def example_comment_def example_regex_match
        del: regex_match.simps)
  have u: "\<not> isAuthorized env_unauthorized (user_login unauthorized_comment)"
    by (simp add: isAuthorized_def a unauthorized_comment_def example_comment_def lower_alice)
  have t: "checkForBountyCommands env_unauthorized initial_world =
     (Inr (), (tick ListComments initial_world)
        \<lparr>processedComments := insert (comment_id unauthorized_comment)
           (processedComments (tick ListComments initial_world))\<rparr>)"
    by (simp only: tick_single_repository[OF r l] process_comments_no_command[OF n p]
        process_comments.simps(1))
  show ?thesis
    unfolding t using m u p
    by (simp add: initial_world_def unauthorized_comment_def example_comment_def)
qed


section \<open>The command grammar\<close>

text \<open>
  Claim C6, as amended. \<open>parseBountyCommand\<close> returns \<open>null\<close> for every comment body
  that contains no match of the command pattern: \<open>/bounty\<close> in any letter case, one or
  more white-space characters, digits with an optional fraction, one or more white-space
  characters, and 32 to 44 word characters (letters, digits and the underscore). A body
  that does contain a match gives a command exactly when the requester is authorized.
  The function reads its argument and the allow-list and nothing else: it has no effect
  on the state.
\<close>

theorem C6_no_match_no_command:
  "(parseBountyCommand env comment = None)
     = (\<not> command_pattern (body comment) \<or> \<not> isAuthorized env (user_login comment))"
proof (cases "regex_match (body comment)")
  case None
  then have "\<not> command_pattern (body comment)"
    using regex_match_iff_pattern[of "body comment"] by simp
  with None show ?thesis by (simp add: parseBountyCommand_def)
next
  case (Some m)
  then have "command_pattern (body comment)"
    using regex_match_iff_pattern[of "body comment"] by simp
  with Some show ?thesis by (cases m) (simp add: parseBountyCommand_def)
qed

theorem C6_witness:
  "\<not> command_pattern (body plain_comment)
   \<and> parseBountyCommand nominal_env plain_comment = None
   \<and> command_pattern (body example_comment)
   \<and> parseBountyCommand nominal_env example_comment = Some example_command"
proof -
  have a: "AUTHORIZED_USERS nominal_env = [''Alice'']"
    by (simp add: nominal_env_def)
  have u: "isAuthorized nominal_env (user_login plain_comment)"
    "isAuthorized nominal_env (user_login example_comment)"
    by (simp_all add: isAuthorized_def a plain_comment_def example_comment_def lower_alice)
  have "regex_match (body plain_comment) = None"
    by (simp add: plain_comment_def match_at_def lower_char_def)
  then have n: "parseBountyCommand nominal_env plain_comment = None"
    by (simp add: parseBountyCommand_def)
  note p = example_comment_parses[OF a]
  from C6_no_match_no_command[of nominal_env plain_comment]
    C6_no_match_no_command[of nominal_env example_comment] n p u
  show ?thesis by simp
qed

text \<open>
  The claim as it was stated takes the grammar in the words of the specification. The
  pattern of the code accepts more: a command written in capitals, one whose parts are
  separated by tabs, and one whose token address consists of underscores. None of the
  three bodies matches the grammar of the specification, and each gives a command.
\<close>

theorem C6_pattern_wider_than_grammar:
  "\<not> spec_command_grammar (body upper_case_comment)
   \<and> parseBountyCommand nominal_env upper_case_comment = Some example_command
   \<and> \<not> spec_command_grammar (body tab_comment)
   \<and> parseBountyCommand nominal_env tab_comment = Some example_command
   \<and> \<not> spec_command_grammar (body underscore_comment)
   \<and> parseBountyCommand nominal_env underscore_comment
       = Some (example_command\<lparr>tokenAddress := ''________________________________''\<rparr>)"
proof -
  have a: "AUTHORIZED_USERS nominal_env = [''Alice'']"
    by (simp add: nominal_env_def)
  have m1: "regex_match ''/BOUNTY 5 So11111111111111111111111111111111111111112''
     = Some (''5'', ''So11111111111111111111111111111111111111112'')"
    by code_simp
  have m2: "regex_match (''/bounty'' @ [CHR 0x09] @ ''5'' @ [CHR 0x09]
                               @ ''So11111111111111111111111111111111111111112'')
     = Some (''5'', ''So11111111111111111111111111111111111111112'')"
    by (simp add: match_at_def is_space_def is_digit_def is_word_def is_lower_letter_def
        is_upper_letter_def lower_char_def Let_def)
  have m3: "regex_match ''/bounty 5 ________________________________''
     = Some (''5'', ''________________________________'')"
    by (simp add: match_at_def is_space_def is_digit_def is_word_def is_lower_letter_def
        is_upper_letter_def lower_char_def Let_def)
  have p1: "parseBountyCommand nominal_env upper_case_comment = Some example_command"
    by (simp add: parseBountyCommand_def upper_case_comment_def example_comment_def m1
        isAuthorized_def a lower_alice parseFloat_5 example_command_def
        del: regex_match.simps)
  have p2: "parseBountyCommand nominal_env tab_comment = Some example_command"
    by (simp only: parseBountyCommand_def tab_comment_def example_comment_def m2
        GitHubComment.simps)
       (simp add: isAuthorized_def a lower_alice parseFloat_5 example_command_def)
  have p3: "parseBountyCommand nominal_env underscore_comment
       = Some (example_command\<lparr>tokenAddress := ''________________________________''\<rparr>)"
    by (simp add: parseBountyCommand_def underscore_comment_def example_comment_def m3
        isAuthorized_def a lower_alice parseFloat_5 example_command_def
        del: regex_match.simps)
  have n1: "\<not> spec_command_grammar (body upper_case_comment)"
    using spec_grammar_needs[of "body upper_case_comment"]
    by (auto simp: upper_case_comment_def example_comment_def)
  have n2: "\<not> spec_command_grammar (body tab_comment)"
    using spec_grammar_needs[of "body tab_comment"]
    by (auto simp: tab_comment_def example_comment_def)
  have n3: "\<not> spec_command_grammar (body underscore_comment)"
    using spec_grammar_needs[of "body underscore_comment"]
    by (auto simp: underscore_comment_def example_comment_def is_alphanumeric_def
        is_lower_letter_def is_upper_letter_def is_digit_def)
  from p1 p2 p3 n1 n2 n3 show ?thesis by simp
qed


section \<open>The amount of a command\<close>

text \<open>
  Claim C9, as amended. Every command the parser produces has, as its amount, the
  binary64 number nearest to the decimal value of the numeral that the pattern matched,
  digits with an optional fraction, and as its token address the matched address. The
  amount is never \<open>NaN\<close>, negative or the negative zero: it is a finite number that
  is not negative, or \<open>+Infinity\<close>. It is \<open>+Infinity\<close> exactly when the value of the
  numeral is at least \<open>2^1024 - 2^970\<close>, zero exactly when that value is at most
  \<open>2^-1075\<close>, as for the numeral \<open>0\<close>, and positive and finite exactly in between.
  A finite amount differs from the value \<open>x\<close> of the numeral by at most \<open>x / 2^53\<close>,
  or by at most \<open>2^-1075\<close> when that is more.
\<close>

theorem C9_amount_not_negative:
  assumes "parseBountyCommand env comment = Some cmd"
  shows "\<exists>ds fs.
       regex_match (body comment)
         = Some (ds @ (if fs = [] then [] else CHR ''.'' # fs), tokenAddress cmd)
     \<and> ds \<noteq> [] \<and> list_all is_digit ds \<and> list_all is_digit fs
     \<and> amount cmd = number_value (decimal_value ds fs)
     \<and> (amount cmd = PositiveInfinity \<or> (\<exists>v. amount cmd = Finite v \<and> 0 \<le> v))
     \<and> (amount cmd = PositiveInfinity) = (2 ^ 1024 - 2 ^ 970 \<le> decimal_value ds fs)
     \<and> (amount cmd = Finite 0) = (decimal_value ds fs \<le> 1 / 2 ^ 1075)
     \<and> positive_finite (amount cmd)
         = (1 / 2 ^ 1075 < decimal_value ds fs \<and> decimal_value ds fs < 2 ^ 1024 - 2 ^ 970)
     \<and> (\<forall>v. amount cmd = Finite v
           \<longrightarrow> \<bar>v - decimal_value ds fs\<bar>
                 \<le> max (decimal_value ds fs / 2 ^ 53) (1 / 2 ^ 1075))"
proof -
  from assms obtain g1 g2 where m: "regex_match (body comment) = Some (g1, g2)"
    and c: "cmd = \<lparr>amount = parseFloat g1, tokenAddress = g2, issueUrl = issue_url comment\<rparr>"
    by (auto simp: parseBountyCommand_def split: option.splits if_splits)
  from regex_match_sound[OF m] obtain pre rest where "match_at rest = Some (g1, g2)" by blast
  then obtain kw ws1 ds fraction ws2 post where
    d: "ds \<noteq> []" "list_all is_digit ds"
    and f: "fraction = [] \<or> (\<exists>fs. fraction = CHR ''.'' # fs \<and> fs \<noteq> [] \<and> list_all is_digit fs)"
    and g1: "g1 = ds @ fraction"
    by (rule match_at_sound)
  from f obtain fs where fs: "list_all is_digit fs"
    and fr: "fraction = (if fs = [] then [] else CHR ''.'' # fs)"
  proof
    assume "fraction = []"
    then show ?thesis by (intro that[of "[]"]) simp_all
  next
    assume "\<exists>fs. fraction = CHR ''.'' # fs \<and> fs \<noteq> [] \<and> list_all is_digit fs"
    then obtain fs' where "fraction = CHR ''.'' # fs'" "fs' \<noteq> []" "list_all is_digit fs'"
      by blast
    then show ?thesis by (intro that[of fs']) simp_all
  qed
  define x where "x = decimal_value ds fs"
  have x0: "0 \<le> x" by (simp add: x_def decimal_value_def)
  have a: "amount cmd = number_value x"
    unfolding x_def using parseFloat_numeral[OF d fs] by (simp add: c g1 fr)
  note nn = number_value_not_negative[OF x0]
  note ov = number_value_overflow[of x]
  note ze = number_value_zero[OF x0]
  have pf: "positive_finite (number_value x) = (1 / 2 ^ 1075 < x \<and> x < 2 ^ 1024 - 2 ^ 970)"
  proof (cases "number_value x = PositiveInfinity")
    case True
    with ov show ?thesis by (simp add: positive_finite_def)
  next
    case False
    with nn obtain v where v: "number_value x = Finite v" "0 \<le> v" by blast
    with ze have "(v = 0) = (x \<le> 1 / 2 ^ 1075)" by simp
    moreover from False ov have "x < 2 ^ 1024 - 2 ^ 970" by simp
    ultimately show ?thesis using v by (auto simp: positive_finite_def)
  qed
  have r: "regex_match (body comment)
      = Some (ds @ (if fs = [] then [] else CHR ''.'' # fs), tokenAddress cmd)"
    using m by (simp add: c g1 fr)
  have nr: "\<forall>v. number_value x = Finite v \<longrightarrow> \<bar>v - x\<bar> \<le> max (x / 2 ^ 53) (1 / 2 ^ 1075)"
    using number_value_near[OF x0] by blast
  show ?thesis
    apply (rule exI[of _ ds], rule exI[of _ fs])
    unfolding a x_def[symmetric]
    using r d fs nn ov ze pf nr by (intro conjI refl)
qed

theorem C9_witness:
  "parseBountyCommand nominal_env example_comment = Some example_command
   \<and> body example_comment = ''/bounty 5 So11111111111111111111111111111111111111112''
   \<and> amount example_command = Finite 5 \<and> positive_finite (amount example_command)"
proof -
  have a: "AUTHORIZED_USERS nominal_env = [''Alice'']"
    by (simp add: nominal_env_def)
  note p = example_comment_parses[OF a]
  from C9_amount_not_negative[OF p] p show ?thesis
    by (simp add: example_command_def example_comment_def positive_finite_def)
qed

text \<open>
  The claim as it was stated asks for a positive and finite amount. The command
  \<open>/bounty 0\<close> of an authorized user is accepted, with the amount zero, and so is the
  command whose amount is a 2 followed by 308 zeros, with the amount \<open>+Infinity\<close>.
\<close>

theorem C9_zero_or_infinite_amount:
  "parseBountyCommand nominal_env zero_comment = Some (example_command\<lparr>amount := Finite 0\<rparr>)
   \<and> \<not> positive_finite (amount (example_command\<lparr>amount := Finite 0\<rparr>))
   \<and> parseBountyCommand nominal_env huge_comment
       = Some (example_command\<lparr>amount := PositiveInfinity\<rparr>)
   \<and> \<not> positive_finite (amount (example_command\<lparr>amount := PositiveInfinity\<rparr>))"
proof -
  have a: "AUTHORIZED_USERS nominal_env = [''Alice'']"
    by (simp add: nominal_env_def)
  have m: "regex_match ''/bounty 0 So11111111111111111111111111111111111111112''
     = Some (''0'', ''So11111111111111111111111111111111111111112'')"
    by (simp add: match_at_def is_space_def is_digit_def is_word_def is_lower_letter_def
        is_upper_letter_def lower_char_def Let_def)
  have z: "parseBountyCommand nominal_env zero_comment
      = Some (example_command\<lparr>amount := Finite 0\<rparr>)"
    by (simp add: parseBountyCommand_def zero_comment_def example_comment_def m parseFloat_0
        isAuthorized_def a lower_alice example_command_def del: regex_match.simps)
  have u: "user_login huge_comment = ''alice''"
    "issue_url huge_comment = ''https://api.github.com/repos/acme/widget/issues/7''"
    by (simp_all add: huge_comment_def example_comment_def)
  have h: "parseBountyCommand nominal_env huge_comment
      = Some (example_command\<lparr>amount := PositiveInfinity\<rparr>)"
    unfolding parseBountyCommand_def huge_regex_match
    by (simp add: parseFloat_huge u isAuthorized_def a lower_alice example_command_def)
  from z h show ?thesis by (simp add: positive_finite_def)
qed

end
